theory Spec2Isabelle
  imports Main
begin

section \<open>Strings and arrays of the host language\<close>

text \<open>
  The generator script \<^verbatim>\<open>src/scripts/build-types.ts\<close> works on JavaScript strings.
  A string is a list of code units; the operations below are the ones the script calls,
  with the results the language defines for them.
\<close>

definition newline :: string where
  "newline = [CHR 0x0A]"

text \<open>\<^verbatim>\<open>xs.join(sep)\<close>\<close>

fun join :: "string \<Rightarrow> string list \<Rightarrow> string" where
  "join sep [] = []"
| "join sep [x] = x"
| "join sep (x # y # ys) = x @ sep @ join sep (y # ys)"

text \<open>\<^verbatim>\<open>s.split(c)\<close> for a one-character separator: never the empty array.\<close>

fun split_on :: "char \<Rightarrow> string \<Rightarrow> string list" where
  "split_on c [] = [[]]"
| "split_on c (x # xs) =
     (if x = c then [] # split_on c xs
      else (case split_on c xs of
              [] \<Rightarrow> [[x]]
            | w # ws \<Rightarrow> (x # w) # ws))"

text \<open>\<^verbatim>\<open>s.startsWith(p)\<close>\<close>

definition startsWith :: "string \<Rightarrow> string \<Rightarrow> bool" where
  "startsWith s p = (take (length p) s = p)"

text \<open>\<^verbatim>\<open>s.lastIndexOf(c)\<close>: the last position of \<open>c\<close>, or \<open>-1\<close>.\<close>

primrec last_index :: "char \<Rightarrow> string \<Rightarrow> nat option" where
  "last_index c [] = None"
| "last_index c (x # xs) =
     (case last_index c xs of
        Some i \<Rightarrow> Some (Suc i)
      | None \<Rightarrow> (if x = c then Some 0 else None))"

definition lastIndexOf :: "string \<Rightarrow> char \<Rightarrow> int" where
  "lastIndexOf s c = (case last_index c s of None \<Rightarrow> - 1 | Some i \<Rightarrow> int i)"

text \<open>
  \<^verbatim>\<open>s.substring(a, b)\<close>: both indices are clamped to \<open>0 .. length\<close> and swapped
  when the first is the larger one.
\<close>

definition substring :: "string \<Rightarrow> int \<Rightarrow> int \<Rightarrow> string" where
  "substring s a b =
     (let n = int (length s);
          a' = max 0 (min a n);
          b' = max 0 (min b n);
          lo = min a' b';
          hi = max a' b'
      in take (nat (hi - lo)) (drop (nat lo) s))"

section \<open>The protocol document\<close>

text \<open>
  \<^verbatim>\<open>OBSRequestField | OBSResponseField\<close> (and \<^verbatim>\<open>OBSEventField\<close>, which has the
  members of a response field). One record stands for the union: \<open>valueOptional = None\<close>
  says that the object has no member \<^verbatim>\<open>valueOptional\<close>, which is what
  \<^verbatim>\<open>isObsRequestField\<close> tests. \<open>valueRestrictions\<close> and \<open>valueOptionalBehavior\<close>
  are \<open>None\<close> for \<^verbatim>\<open>null\<close> and for a missing member.
\<close>

record OBSField =
  valueName :: string
  valueType :: string
  valueDescription :: string
  valueRestrictions :: "string option"
  valueOptional :: "bool option"
  valueOptionalBehavior :: "string option"

definition isObsRequestField :: "OBSField \<Rightarrow> bool" where
  "isObsRequestField val = (valueOptional val \<noteq> None)"

text \<open>The members of an event and of a request that the generators read.\<close>

record OBSEvent =
  eventType :: string
  dataFields :: "OBSField list"

record OBSRequest =
  requestType :: string
  requestFields :: "OBSField list"
  responseFields :: "OBSField list"

section \<open>The type tree\<close>

text \<open>
  \<^verbatim>\<open>BaseType\<close>: both members are optional in the source, \<open>None\<close> is a missing member.
\<close>

record BaseType =
  optional :: "bool option"
  jsdoc :: "string option"

datatype PrimitiveName = T_string | T_number | T_boolean

text \<open>
  \<^verbatim>\<open>AnyType = PrimitiveType | JsonValueType | ObjectType | ArrayType\<close>. A
  \<^verbatim>\<open>Tree\<close> (the \<^verbatim>\<open>properties\<close> member) is a list of own properties in insertion
  order. The element of an array is any node: the declared restriction of
  \<^verbatim>\<open>ArrayType['items']\<close> is a cast in \<^verbatim>\<open>getBaseType\<close> and nothing checks it when the
  script runs.
\<close>

datatype AnyType =
    PrimitiveType PrimitiveName BaseType
  | JsonValueType "(string \<times> AnyType) list" BaseType
  | ObjectType "(string \<times> AnyType) list" BaseType
  | ArrayType AnyType BaseType

definition no_base :: BaseType where
  "no_base = \<lparr>optional = None, jsdoc = None\<rparr>"

fun base_of :: "AnyType \<Rightarrow> BaseType" where
  "base_of (PrimitiveType p b) = b"
| "base_of (JsonValueType ps b) = b"
| "base_of (ObjectType ps b) = b"
| "base_of (ArrayType it b) = b"

fun with_base :: "AnyType \<Rightarrow> BaseType \<Rightarrow> AnyType" where
  "with_base (PrimitiveType p _) b = PrimitiveType p b"
| "with_base (JsonValueType ps _) b = JsonValueType ps b"
| "with_base (ObjectType ps _) b = ObjectType ps b"
| "with_base (ArrayType it _) b = ArrayType it b"

fun is_object :: "AnyType \<Rightarrow> bool" where
  "is_object (ObjectType ps b) = True"
| "is_object _ = False"

text \<open>
  What \<^verbatim>\<open>currentNode\<close> can hold while a path is walked: a node of the tree, or the
  value of a member that the property bag inherits from \<^verbatim>\<open>Object.prototype\<close> (a
  function, or the prototype itself), which has no member \<^verbatim>\<open>type\<close>.
\<close>

datatype current = Node AnyType | PrototypeMember string

text \<open>
  One constructor for each \<^verbatim>\<open>throw\<close> of the script, carrying the values its message
  interpolates, and the \<^verbatim>\<open>RangeError\<close> of the engine for a call stack that is used up.
\<close>

datatype error =
    UnexpectedStarKey current OBSField
  | UnexpectedObjectType current OBSField string
  | NeedLastStarHandler current OBSField
  | NotAnObject current OBSField
  | UnknownType string
  | CallStackExceeded

definition unknown_type_message :: "string \<Rightarrow> string" where
  "unknown_type_message inType = ''Unknown type: '' @ inType"

section \<open>getBaseType and resolveType\<close>

definition ARRAY_PREFIX :: string where
  "ARRAY_PREFIX = ''Array<''"

text \<open>
  \<^verbatim>\<open>getBaseType\<close> calls itself inside the object literal it returns, so every
  \<^verbatim>\<open>Array<\<close> of the declared type costs one frame of the call stack. \<open>stack\<close> is the
  number of nested calls of \<^verbatim>\<open>getBaseType\<close> the engine has room for where
  \<^verbatim>\<open>resolveType\<close> calls it; a call that finds no room throws the \<^verbatim>\<open>RangeError\<close> of the
  engine. The recursion is on \<^verbatim>\<open>inType.substring(6, inType.lastIndexOf('>'))\<close>; for the
  text \<^verbatim>\<open>Array<\<close> that is the same text again, and the calls end with the stack.
\<close>

fun getBaseType :: "nat \<Rightarrow> string \<Rightarrow> error + AnyType" where
  "getBaseType 0 inType = Inl CallStackExceeded"
| "getBaseType (Suc stack) inType =
     (if startsWith inType ARRAY_PREFIX then
        (let subType = substring inType (int (length ARRAY_PREFIX)) (lastIndexOf inType (CHR ''>''))
         in (case getBaseType stack subType of
               Inl e \<Rightarrow> Inl e
             | Inr items \<Rightarrow> Inr (ArrayType items no_base)))
      else if inType = ''Boolean'' then Inr (PrimitiveType T_boolean no_base)
      else if inType = ''String'' then Inr (PrimitiveType T_string no_base)
      else if inType = ''Number'' then Inr (PrimitiveType T_number no_base)
      else if inType = ''Object'' then Inr (ObjectType [] no_base)
      else if inType = ''Any'' then Inr (JsonValueType [] no_base)
      else Inl (UnknownType inType))"

declare getBaseType.simps [simp del]

text \<open>
  The text the recursion of \<^verbatim>\<open>getBaseType\<close> ends at: the declared type, with the text
  between \<^verbatim>\<open>Array<\<close> and the last \<^verbatim>\<open>>\<close> taken as long as the text starts with
  \<^verbatim>\<open>Array<\<close>; \<open>None\<close> when the call stack ends first.
\<close>

fun innermost :: "nat \<Rightarrow> string \<Rightarrow> string option" where
  "innermost 0 inType = None"
| "innermost (Suc stack) inType =
     (if startsWith inType ARRAY_PREFIX
      then innermost stack (substring inType (int (length ARRAY_PREFIX)) (lastIndexOf inType (CHR ''>'')))
      else Some inType)"

text \<open>
  \<^verbatim>\<open>resolveType\<close>. The tests \<^verbatim>\<open>if (valueRestrictions)\<close> and
  \<^verbatim>\<open>if (valueOptionalBehavior)\<close> hold for a string that is not empty; \<^verbatim>\<open>null\<close> and a
  missing member fail them.
\<close>

definition resolveType :: "nat \<Rightarrow> OBSField \<Rightarrow> error + AnyType" where
  "resolveType stack field =
     (case getBaseType stack (valueType field) of
        Inl e \<Rightarrow> Inl e
      | Inr type \<Rightarrow>
          (let doc0 = valueDescription field in
           if isObsRequestField field then
             (let doc1 = (case valueRestrictions field of
                            Some r \<Rightarrow> (if r \<noteq> [] then doc0 @ newline @ ''@restrictions '' @ r else doc0)
                          | None \<Rightarrow> doc0);
                  doc2 = (case valueOptionalBehavior field of
                            Some d \<Rightarrow> (if d \<noteq> [] then doc1 @ newline @ ''@defaultValue '' @ d else doc1)
                          | None \<Rightarrow> doc1)
              in Inr (with_base type \<lparr>optional = valueOptional field, jsdoc = Some doc2\<rparr>))
           else Inr (with_base type \<lparr>optional = None, jsdoc = Some doc0\<rparr>)))"

section \<open>Property bags\<close>

text \<open>
  The names every object literal inherits from \<^verbatim>\<open>Object.prototype\<close>: the operator
  \<^verbatim>\<open>in\<close> finds them in a bag that has no own property of that name.
\<close>

definition Object_prototype_keys :: "string list" where
  "Object_prototype_keys =
     [''constructor'', ''__defineGetter__'', ''__defineSetter__'', ''hasOwnProperty'',
      ''__lookupGetter__'', ''__lookupSetter__'', ''isPrototypeOf'',
      ''propertyIsEnumerable'', ''toString'', ''valueOf'', ''__proto__'',
      ''toLocaleString'']"

text \<open>
  \<^verbatim>\<open>properties[k] = v\<close> for an own property: an existing key keeps its place, a new
  key goes last.
\<close>

fun assign :: "(string \<times> AnyType) list \<Rightarrow> string \<Rightarrow> AnyType \<Rightarrow> (string \<times> AnyType) list" where
  "assign [] k v = [(k, v)]"
| "assign ((k', v') # ps) k v =
     (if k' = k then (k, v) # ps else (k', v') # assign ps k v)"

text \<open>
  \<^verbatim>\<open>properties[lastPart] = v\<close>. The name \<^verbatim>\<open>__proto__\<close> is an accessor of
  \<^verbatim>\<open>Object.prototype\<close>: assigning to it adds no own property, it replaces the prototype
  of the bag. Prototypes are not part of this model, so the statements about whole field
  lists below ask that no leaf is named \<^verbatim>\<open>__proto__\<close> (\<open>plain_leaves\<close>).
\<close>

definition set_property :: "(string \<times> AnyType) list \<Rightarrow> string \<Rightarrow> AnyType \<Rightarrow> (string \<times> AnyType) list" where
  "set_property props k v = (if k = ''__proto__'' then props else assign props k v)"

text \<open>
  \<^verbatim>\<open>Object.keys\<close> and \<^verbatim>\<open>Object.entries\<close> list the own properties whose names are array
  indices (canonical decimal numerals below \<open>2^32 - 1\<close>) first, in ascending numeric
  order, and then the other names in insertion order.
\<close>

definition is_digit :: "char \<Rightarrow> bool" where
  "is_digit c = (48 \<le> (of_char c :: nat) \<and> (of_char c :: nat) \<le> 57)"

definition decimal :: "string \<Rightarrow> nat" where
  "decimal s = foldl (\<lambda>n c. 10 * n + ((of_char c :: nat) - 48)) 0 s"

definition array_index :: "string \<Rightarrow> nat option" where
  "array_index s =
     (if s \<noteq> [] \<and> list_all is_digit s \<and> (s = ''0'' \<or> hd s \<noteq> CHR ''0'')
         \<and> decimal s < 4294967295
      then Some (decimal s) else None)"

definition index_key :: "string \<times> AnyType \<Rightarrow> nat" where
  "index_key kv = (case array_index (fst kv) of Some n \<Rightarrow> n | None \<Rightarrow> 0)"

definition object_entries :: "(string \<times> AnyType) list \<Rightarrow> (string \<times> AnyType) list" where
  "object_entries props =
     sort_key index_key (filter (\<lambda>kv. array_index (fst kv) \<noteq> None) props)
     @ filter (\<lambda>kv. array_index (fst kv) = None) props"

definition object_keys :: "(string \<times> AnyType) list \<Rightarrow> string list" where
  "object_keys props = map fst (object_entries props)"

section \<open>unflattenAndResolveTypes\<close>

text \<open>
  The callback of \<^verbatim>\<open>parts.forEach\<close> at a segment \<^verbatim>\<open>*\<close>: the node must be an array of
  objects, and \<^verbatim>\<open>currentNode\<close> becomes its element. The callback does not return there:
  it goes on with the element and the segment \<^verbatim>\<open>*\<close> as with any other segment.
\<close>

definition enter_star :: "AnyType \<Rightarrow> string \<Rightarrow> AnyType option" where
  "enter_star currentNode nodeName =
     (if nodeName = ''*'' then
        (case currentNode of
           ArrayType items b \<Rightarrow> (if is_object items then Some items else None)
         | _ \<Rightarrow> None)
      else Some currentNode)"

text \<open>The node \<^verbatim>\<open>currentNode\<close> was, with the changes made below its element.\<close>

definition leave_star :: "AnyType \<Rightarrow> string \<Rightarrow> AnyType \<Rightarrow> AnyType" where
  "leave_star currentNode nodeName node' =
     (if nodeName = ''*'' then
        (case currentNode of
           ArrayType items b \<Rightarrow> ArrayType node' b
         | _ \<Rightarrow> node')
      else node')"

text \<open>The child made for a missing segment: \<^verbatim>\<open>parts[i + 1] === '*'\<close> looks one ahead.\<close>

definition new_child :: "string list \<Rightarrow> AnyType" where
  "new_child rest =
     (case rest of
        next_name # _ \<Rightarrow>
          (if next_name = ''*'' then ArrayType (ObjectType [] no_base) no_base
           else ObjectType [] no_base)
      | [] \<Rightarrow> ObjectType [] no_base)"

text \<open>
  When \<^verbatim>\<open>currentNode\<close> holds an inherited member, the next test of
  \<^verbatim>\<open>currentNode.type\<close> throws: in the next round of the loop, or after it.
\<close>

definition prototype_member_error :: "string \<Rightarrow> string list \<Rightarrow> string \<Rightarrow> OBSField \<Rightarrow> error" where
  "prototype_member_error m rest lastPart item =
     (case rest of
        [] \<Rightarrow>
          (if lastPart = ''*'' then NeedLastStarHandler (PrototypeMember m) item
           else NotAnObject (PrototypeMember m) item)
      | nodeName # _ \<Rightarrow>
          (if nodeName = ''*'' then UnexpectedStarKey (PrototypeMember m) item
           else UnexpectedObjectType (PrototypeMember m) item nodeName))"

text \<open>
  The body of \<^verbatim>\<open>items.forEach\<close> for one item, from \<^verbatim>\<open>currentNode\<close> on: the segments
  still to walk, then the leaf. The source changes the tree in place through the reference
  \<^verbatim>\<open>currentNode\<close>; here every level returns its node as changed below it. The leaf is
  resolved last, after every test of the walk, as in the source.
\<close>

fun walk :: "nat \<Rightarrow> AnyType \<Rightarrow> string list \<Rightarrow> string \<Rightarrow> OBSField \<Rightarrow> error + AnyType" where
  "walk stack currentNode [] lastPart item =
     (if lastPart = ''*'' then Inl (NeedLastStarHandler (Node currentNode) item)
      else (case currentNode of
              ObjectType props b \<Rightarrow>
                (case resolveType stack item of
                   Inl e \<Rightarrow> Inl e
                 | Inr type \<Rightarrow> Inr (ObjectType (set_property props lastPart type) b))
            | _ \<Rightarrow> Inl (NotAnObject (Node currentNode) item)))"
| "walk stack currentNode (nodeName # rest) lastPart item =
     (case enter_star currentNode nodeName of
        None \<Rightarrow> Inl (UnexpectedStarKey (Node currentNode) item)
      | Some node \<Rightarrow>
          (case node of
             ObjectType props b \<Rightarrow>
               (if map_of props nodeName = None \<and> nodeName \<in> set Object_prototype_keys
                then Inl (prototype_member_error nodeName rest lastPart item)
                else
                  (let child = (case map_of props nodeName of
                                  Some c \<Rightarrow> c
                                | None \<Rightarrow> new_child rest)
                   in case walk stack child rest lastPart item of
                        Inl e \<Rightarrow> Inl e
                      | Inr child' \<Rightarrow>
                          Inr (leave_star currentNode nodeName
                                 (ObjectType (assign props nodeName child') b))))
           | _ \<Rightarrow> Inl (UnexpectedObjectType (Node node) item nodeName)))"

text \<open>The number of dots of a name: \<^verbatim>\<open>valueName.match(/\./g)?.length ?? 0\<close>.\<close>

definition dots :: "string \<Rightarrow> nat" where
  "dots s = length (filter (\<lambda>c. c = CHR ''.'') s)"

definition depth :: "OBSField \<Rightarrow> nat" where
  "depth item = dots (valueName item)"

text \<open>\<^verbatim>\<open>parts\<close> after \<^verbatim>\<open>parts.pop()\<close>, and \<^verbatim>\<open>lastPart\<close>.\<close>

definition parts_of :: "OBSField \<Rightarrow> string list" where
  "parts_of item = butlast (split_on (CHR ''.'') (valueName item))"

definition lastPart_of :: "OBSField \<Rightarrow> string" where
  "lastPart_of item = last (split_on (CHR ''.'') (valueName item))"

text \<open>\<^verbatim>\<open>items.forEach\<close>: the first item that throws ends the build.\<close>

fun forEach_item :: "nat \<Rightarrow> AnyType \<Rightarrow> OBSField list \<Rightarrow> error + AnyType" where
  "forEach_item stack root [] = Inr root"
| "forEach_item stack root (item # items) =
     (case walk stack root (parts_of item) (lastPart_of item) item of
        Inl e \<Rightarrow> Inl e
      | Inr root' \<Rightarrow> forEach_item stack root' items)"

text \<open>
  \<^verbatim>\<open>items.sort\<close> with the comparator \<^verbatim>\<open>aDots - bDots\<close> is a stable sort by the number
  of dots, as \<open>sort_key\<close> is.
\<close>

definition unflattenAndResolveTypes :: "nat \<Rightarrow> OBSField list \<Rightarrow> error + AnyType" where
  "unflattenAndResolveTypes stack inputItems =
     (let root = ObjectType [] no_base;
          items = sort_key depth inputItems
      in forEach_item stack root items)"

section \<open>stringifyTypes and stringifyObject\<close>

definition formatJsDoc :: "string list \<Rightarrow> string" where
  "formatJsDoc doc = join newline ([''/**''] @ map (\<lambda>s. '' * '' @ s) doc @ ['' */''])"

definition primitive_name :: "PrimitiveName \<Rightarrow> string" where
  "primitive_name p = (case p of T_string \<Rightarrow> ''string'' | T_number \<Rightarrow> ''number'' | T_boolean \<Rightarrow> ''boolean'')"

definition separator :: "AnyType \<Rightarrow> string" where
  "separator typeDef = (if optional (base_of typeDef) = Some True then ''?:'' else '':'')"

definition doc_lines :: "AnyType \<Rightarrow> string list" where
  "doc_lines typeDef =
     (case jsdoc (base_of typeDef) of
        Some d \<Rightarrow> (if d \<noteq> [] then [formatJsDoc (split_on (CHR 0x0A) d)] else [])
      | None \<Rightarrow> [])"

lemma entries_smaller:
  "(k, v) \<in> set (object_entries props) \<Longrightarrow> size v < Suc (size_list (size_prod (\<lambda>_. 0) size) props)"
proof -
  assume "(k, v) \<in> set (object_entries props)"
  then have "(k, v) \<in> set props"
    by (auto simp: object_entries_def)
  then have "size_prod (\<lambda>_. 0) size (k, v) \<le> size_list (size_prod (\<lambda>_. 0) size) props"
    by (rule size_list_estimation') simp
  then show ?thesis by simp
qed

function stringifyTypes :: "AnyType \<Rightarrow> string"
  and stringifyObject :: "(string \<times> AnyType) list \<Rightarrow> string" where
  "stringifyTypes (ObjectType props b) = stringifyObject props"
| "stringifyTypes (ArrayType items b) =
     (let subtype = stringifyTypes items
      in if subtype = ''JsonObject'' then ''JsonObject[]''
         else ''Array<'' @ subtype @ ''>'')"
| "stringifyTypes (JsonValueType props b) = ''JsonValue''"
| "stringifyTypes (PrimitiveType p b) = primitive_name p"
| "stringifyObject props =
     (if length (object_keys props) = 0 then ''JsonObject''
      else join newline
             ([''{'']
              @ concat (map (\<lambda>kv. doc_lines (snd kv)
                                 @ [fst kv @ separator (snd kv) @ '' '' @ stringifyTypes (snd kv) @ '';''])
                          (object_entries props))
              @ [''}'']))"
  by pat_completeness auto
termination
  by (relation "measure (\<lambda>x. case x of Inl t \<Rightarrow> 2 * size t | Inr props \<Rightarrow> Suc (2 * size_list (size_prod (\<lambda>_. 0) size) props))")
     (auto dest: entries_smaller)

section \<open>The generators\<close>

text \<open>\<^verbatim>\<open>xs.map(f)\<close> for a callback that can throw: the first error in order ends it.\<close>

fun map_throwing :: "('a \<Rightarrow> error + 'b) \<Rightarrow> 'a list \<Rightarrow> error + 'b list" where
  "map_throwing f [] = Inr []"
| "map_throwing f (x # xs) =
     (case f x of
        Inl e \<Rightarrow> Inl e
      | Inr y \<Rightarrow> (case map_throwing f xs of Inl e \<Rightarrow> Inl e | Inr ys \<Rightarrow> Inr (y # ys)))"

definition entity_type :: "nat \<Rightarrow> OBSField list \<Rightarrow> error + string" where
  "entity_type stack inputItems =
     (case unflattenAndResolveTypes stack inputItems of
        Inl e \<Rightarrow> Inl e
      | Inr tree \<Rightarrow> Inr (stringifyTypes tree))"

text \<open>
  The callback of each generator. The builder and the emitter it calls are parameters
  here, so that a statement can say of a callback that its result does not depend on them;
  the generators use the callbacks with \<^verbatim>\<open>unflattenAndResolveTypes\<close> and
  \<^verbatim>\<open>stringifyTypes\<close>.
\<close>

definition event_callback ::
  "(OBSField list \<Rightarrow> error + AnyType) \<Rightarrow> (AnyType \<Rightarrow> string) \<Rightarrow> OBSEvent \<Rightarrow> error + string" where
  "event_callback build emit ev =
     (if length (dataFields ev) = 0 then Inr (eventType ev @ '': undefined;'')
      else (case build (dataFields ev) of
              Inl e \<Rightarrow> Inl e
            | Inr tree \<Rightarrow> Inr (eventType ev @ '': '' @ emit tree @ '';'')))"

definition request_callback ::
  "(OBSField list \<Rightarrow> error + AnyType) \<Rightarrow> (AnyType \<Rightarrow> string) \<Rightarrow> OBSRequest \<Rightarrow> error + string" where
  "request_callback build emit req =
     (if length (requestFields req) = 0 then Inr (requestType req @ '': never;'')
      else (case build (requestFields req) of
              Inl e \<Rightarrow> Inl e
            | Inr tree \<Rightarrow> Inr (requestType req @ '': '' @ emit tree @ '';'')))"

definition response_callback ::
  "(OBSField list \<Rightarrow> error + AnyType) \<Rightarrow> (AnyType \<Rightarrow> string) \<Rightarrow> OBSRequest \<Rightarrow> error + string" where
  "response_callback build emit req =
     (if length (responseFields req) = 0 then Inr ([CHR 0x09] @ requestType req @ '': undefined;'')
      else (case build (responseFields req) of
              Inl e \<Rightarrow> Inl e
            | Inr tree \<Rightarrow> Inr (requestType req @ '': '' @ emit tree @ '';'')))"

definition event_entry :: "nat \<Rightarrow> OBSEvent \<Rightarrow> error + string" where
  "event_entry stack = event_callback (unflattenAndResolveTypes stack) stringifyTypes"

definition request_entry :: "nat \<Rightarrow> OBSRequest \<Rightarrow> error + string" where
  "request_entry stack = request_callback (unflattenAndResolveTypes stack) stringifyTypes"

definition response_entry :: "nat \<Rightarrow> OBSRequest \<Rightarrow> error + string" where
  "response_entry stack = response_callback (unflattenAndResolveTypes stack) stringifyTypes"

definition generateObsEventTypes :: "nat \<Rightarrow> OBSEvent list \<Rightarrow> error + string" where
  "generateObsEventTypes stack events =
     (case map_throwing (event_entry stack) events of
        Inl e \<Rightarrow> Inl e
      | Inr entries \<Rightarrow> Inr (join newline entries))"

definition generateObsRequestTypes :: "nat \<Rightarrow> OBSRequest list \<Rightarrow> error + string" where
  "generateObsRequestTypes stack requests =
     (case map_throwing (request_entry stack) requests of
        Inl e \<Rightarrow> Inl e
      | Inr entries \<Rightarrow> Inr (join newline entries))"

definition generateObsResponseTypes :: "nat \<Rightarrow> OBSRequest list \<Rightarrow> error + string" where
  "generateObsResponseTypes stack requests =
     (case map_throwing (response_entry stack) requests of
        Inl e \<Rightarrow> Inl e
      | Inr entries \<Rightarrow> Inr (join newline entries))"

section \<open>The store of the caller\<close>

text \<open>
  The caller's array and the descriptor objects live in a store: descriptor objects by
  address, arrays of descriptor addresses by address, and the first address no array has
  yet.
\<close>

record store =
  field_at :: "nat \<Rightarrow> OBSField"
  array_at :: "nat \<Rightarrow> nat list"
  next_array :: nat

text \<open>\<^verbatim>\<open>inputItems.slice(0)\<close>: a new array with the same elements.\<close>

definition slice0 :: "store \<Rightarrow> nat \<Rightarrow> nat \<times> store" where
  "slice0 st a =
     (next_array st,
      st\<lparr>array_at := (array_at st)(next_array st := array_at st a),
         next_array := Suc (next_array st)\<rparr>)"

text \<open>\<^verbatim>\<open>items.sort(...)\<close>: the array at the address is sorted in place.\<close>

definition sort_in_place :: "store \<Rightarrow> nat \<Rightarrow> store" where
  "sort_in_place st a =
     st\<lparr>array_at := (array_at st)(a := sort_key (\<lambda>r. depth (field_at st r)) (array_at st a))\<rparr>"

text \<open>
  \<^verbatim>\<open>unflattenAndResolveTypes\<close> on the store: the argument is the address of the caller's
  array. The loop over the items reads the descriptors and writes the tree only, which is
  made of new objects.
\<close>

definition unflattenAndResolveTypes_store :: "nat \<Rightarrow> store \<Rightarrow> nat \<Rightarrow> (error + AnyType) \<times> store" where
  "unflattenAndResolveTypes_store stack st inputItems =
     (let root = ObjectType [] no_base;
          (items, st1) = slice0 st inputItems;
          st2 = sort_in_place st1 items
      in (forEach_item stack root (map (field_at st2) (array_at st2 items)), st2))"

section \<open>Positions in the tree\<close>

text \<open>The segments of the name of an item: \<^verbatim>\<open>parts\<close> and then \<^verbatim>\<open>lastPart\<close>.\<close>

definition segments :: "OBSField \<Rightarrow> string list" where
  "segments item = split_on (CHR ''.'') (valueName item)"

text \<open>
  No leaf of the list is named \<^verbatim>\<open>__proto__\<close> (see \<open>set_property\<close>).
\<close>

definition plain_leaves :: "OBSField list \<Rightarrow> bool" where
  "plain_leaves items = list_all (\<lambda>item. lastPart_of item \<noteq> ''__proto__'') items"

text \<open>
  The node that one round of \<^verbatim>\<open>parts.forEach\<close> moves to from \<open>node\<close> when the segment
  names an own property: \<^verbatim>\<open>properties[nodeName]\<close>, of the element for the segment
  \<^verbatim>\<open>*\<close>.
\<close>

definition child :: "AnyType \<Rightarrow> string \<Rightarrow> AnyType option" where
  "child node nodeName =
     (case enter_star node nodeName of
        None \<Rightarrow> None
      | Some n \<Rightarrow> (case n of ObjectType props b \<Rightarrow> map_of props nodeName | _ \<Rightarrow> None))"

fun node_at :: "AnyType \<Rightarrow> string list \<Rightarrow> AnyType option" where
  "node_at node [] = Some node"
| "node_at node (nodeName # rest) =
     (case child node nodeName of
        None \<Rightarrow> None
      | Some c \<Rightarrow> node_at c rest)"

section \<open>Trees that differ in one leaf\<close>



section \<open>Lists in another order\<close>






section \<open>Basic facts\<close>

lemma map_insort_key:
  "map f (insort_key (\<lambda>r. g (f r)) x xs) = insort_key g (f x) (map f xs)"
  by (induction xs) simp_all

lemma map_sort_key: "map f (sort_key (\<lambda>r. g (f r)) xs) = sort_key g (map f xs)"
  by (induction xs) (simp_all add: map_insort_key)

lemma getBaseType_Boolean: "getBaseType (Suc stack) ''Boolean'' = Inr (PrimitiveType T_boolean no_base)"
  by (simp add: getBaseType.simps startsWith_def ARRAY_PREFIX_def)

lemma getBaseType_String: "getBaseType (Suc stack) ''String'' = Inr (PrimitiveType T_string no_base)"
  by (simp add: getBaseType.simps startsWith_def ARRAY_PREFIX_def)

lemma getBaseType_Number: "getBaseType (Suc stack) ''Number'' = Inr (PrimitiveType T_number no_base)"
  by (simp add: getBaseType.simps startsWith_def ARRAY_PREFIX_def)

lemma getBaseType_Object: "getBaseType (Suc stack) ''Object'' = Inr (ObjectType [] no_base)"
  by (simp add: getBaseType.simps startsWith_def ARRAY_PREFIX_def)

lemma getBaseType_Any: "getBaseType (Suc stack) ''Any'' = Inr (JsonValueType [] no_base)"
  by (simp add: getBaseType.simps startsWith_def ARRAY_PREFIX_def)

lemma getBaseType_unknown:
  "\<not> startsWith inType ARRAY_PREFIX \<Longrightarrow>
   inType \<notin> set [''Boolean'', ''String'', ''Number'', ''Object'', ''Any''] \<Longrightarrow>
   getBaseType (Suc stack) inType = Inl (UnknownType inType)"
  by (subst getBaseType.simps) simp

lemma last_index_snoc: "last_index c (xs @ [c]) = Some (length xs)"
  by (induction xs) auto

lemma lastIndexOf_snoc: "lastIndexOf (xs @ [c]) c = int (length xs)"
  by (simp add: lastIndexOf_def last_index_snoc)

lemma substring_middle:
  "substring (p @ t @ q) (int (length p)) (int (length p + length t)) = t"
  by (simp add: substring_def Let_def min_def max_def)

lemma getBaseType_Array:
  "getBaseType (Suc stack) (''Array<'' @ T @ ''>'') =
     (case getBaseType stack T of Inl e \<Rightarrow> Inl e | Inr items \<Rightarrow> Inr (ArrayType items no_base))"
proof -
  let ?s = "''Array<'' @ T @ ''>''"
  have idx: "lastIndexOf ?s (CHR ''>'') = int (length ''Array<'' + length T)"
    using lastIndexOf_snoc [of "''Array<'' @ T" "CHR ''>''"] by simp
  have sub: "substring ?s (int (length ARRAY_PREFIX)) (lastIndexOf ?s (CHR ''>'')) = T"
    unfolding idx ARRAY_PREFIX_def by (rule substring_middle)
  have sw: "startsWith ?s ARRAY_PREFIX"
    by (simp add: startsWith_def ARRAY_PREFIX_def)
  show ?thesis
    by (subst getBaseType.simps) (simp only: sw sub Let_def if_True)
qed

lemma walk_trailing_star: "\<exists>e. walk stack node parts ''*'' item = Inl e"
proof (induction parts arbitrary: node)
  case Nil
  show ?case by simp
next
  case (Cons nodeName rest)
  show ?case
  proof (cases "enter_star node nodeName")
    case None
    then show ?thesis by simp
  next
    case (Some n)
    show ?thesis
    proof (cases n)
      case (ObjectType props b)
      obtain e where "walk stack (case map_of props nodeName of Some c \<Rightarrow> c | None \<Rightarrow> new_child rest) rest ''*'' item = Inl e"
        using Cons.IH by blast
      with Some ObjectType show ?thesis by (simp add: Let_def)
    qed (use Some in simp_all)
  qed
qed

lemma walk_unresolved:
  assumes "resolveType stack item = Inl e0"
  shows "\<exists>e. walk stack node parts lastPart item = Inl e"
proof (induction parts arbitrary: node)
  case Nil
  show ?case using assms by (cases node) simp_all
next
  case (Cons nodeName rest)
  show ?case
  proof (cases "enter_star node nodeName")
    case None
    then show ?thesis by simp
  next
    case (Some n)
    show ?thesis
    proof (cases n)
      case (ObjectType props b)
      obtain e where "walk stack (case map_of props nodeName of Some c \<Rightarrow> c | None \<Rightarrow> new_child rest) rest lastPart item = Inl e"
        using Cons.IH by blast
      with Some ObjectType show ?thesis by (simp add: Let_def)
    qed (use Some in simp_all)
  qed
qed

lemma forEach_item_fails:
  assumes "item \<in> set items"
    and "\<And>node. \<exists>e. walk stack node (parts_of item) (lastPart_of item) item = Inl e"
  shows "\<exists>e. forEach_item stack root items = Inl e"
  using assms(1)
proof (induction items arbitrary: root)
  case Nil
  then show ?case by simp
next
  case (Cons x xs)
  show ?case
  proof (cases "walk stack root (parts_of x) (lastPart_of x) x")
    case (Inl e)
    then show ?thesis by simp
  next
    case (Inr root')
    with assms(2) [of root] have "x \<noteq> item" by auto
    with Cons.prems have "item \<in> set xs" by simp
    then show ?thesis using Cons.IH Inr by simp
  qed
qed

lemma build_fails:
  assumes "item \<in> set inputItems"
    and "\<And>node. \<exists>e. walk stack node (parts_of item) (lastPart_of item) item = Inl e"
  shows "\<exists>e. unflattenAndResolveTypes stack inputItems = Inl e"
  unfolding unflattenAndResolveTypes_def Let_def
  by (rule forEach_item_fails [of item]) (use assms in simp_all)

lemma resolveType_name_irrelevant:
  "resolveType stack (field\<lparr>valueName := name\<rparr>) = resolveType stack field"
  by (cases "getBaseType stack (valueType field)") (simp_all add: resolveType_def isObsRequestField_def Let_def)

lemma resolveType_fails:
  "getBaseType stack (valueType field) = Inl e \<Longrightarrow> resolveType stack field = Inl e"
  by (simp add: resolveType_def)

lemma getBaseType_innermost_unknown:
  "innermost stack s = Some t \<Longrightarrow>
   t \<notin> set [''Boolean'', ''String'', ''Number'', ''Object'', ''Any''] \<Longrightarrow>
   getBaseType stack s = Inl (UnknownType t)"
proof (induction stack arbitrary: s)
  case 0
  then show ?case by simp
next
  case (Suc k)
  show ?case
  proof (cases "startsWith s ARRAY_PREFIX")
    case True
    define sub where "sub = substring s (int (length ARRAY_PREFIX)) (lastIndexOf s (CHR ''>''))"
    have "innermost k sub = Some t"
      using Suc.prems(1) True by (simp add: sub_def)
    then have "getBaseType k sub = Inl (UnknownType t)"
      using Suc.prems(2) by (rule Suc.IH)
    then show ?thesis
      using True by (subst getBaseType.simps) (simp add: sub_def Let_def)
  next
    case False
    then have "t = s" using Suc.prems(1) by simp
    then show ?thesis
      using False Suc.prems(2) getBaseType_unknown [of s k] by simp
  qed
qed

lemma getBaseType_innermost_known:
  "innermost stack s = Some u \<Longrightarrow>
   u \<in> set [''Boolean'', ''String'', ''Number'', ''Object'', ''Any''] \<Longrightarrow>
   \<exists>ty. getBaseType stack s = Inr ty"
proof (induction stack arbitrary: s)
  case 0
  then show ?case by simp
next
  case (Suc k)
  show ?case
  proof (cases "startsWith s ARRAY_PREFIX")
    case True
    define sub where "sub = substring s (int (length ARRAY_PREFIX)) (lastIndexOf s (CHR ''>''))"
    have "innermost k sub = Some u"
      using Suc.prems(1) True by (simp add: sub_def)
    then obtain ty where "getBaseType k sub = Inr ty"
      using Suc.IH Suc.prems(2) by blast
    then show ?thesis
      using True by (subst getBaseType.simps) (simp add: sub_def Let_def)
  next
    case False
    then have us: "u = s" using Suc.prems(1) by simp
    have "s = ''Boolean'' \<or> s = ''String'' \<or> s = ''Number'' \<or> s = ''Object'' \<or> s = ''Any''"
      using Suc.prems(2) unfolding us by simp
    then show ?thesis
      using getBaseType_Boolean [of k] getBaseType_String [of k] getBaseType_Number [of k]
        getBaseType_Object [of k] getBaseType_Any [of k]
      by blast
  qed
qed

lemma innermost_Array_Foo: "innermost (Suc (Suc stack)) ''Array<Foo>'' = Some ''Foo''"
  by (simp add: startsWith_def ARRAY_PREFIX_def substring_def lastIndexOf_def Let_def)

lemma innermost_Array_Number_junk:
  "innermost (Suc (Suc stack)) ''Array<Number>junk'' = Some ''Number''"
  by (simp add: startsWith_def ARRAY_PREFIX_def substring_def lastIndexOf_def Let_def)

lemma map_throwing_append:
  "map_throwing f (xs @ ys) =
     (case map_throwing f xs of
        Inl e \<Rightarrow> Inl e
      | Inr a \<Rightarrow> (case map_throwing f ys of Inl e \<Rightarrow> Inl e | Inr b \<Rightarrow> Inr (a @ b)))"
  by (induction xs) (simp_all split: sum.splits)

lemma entity_type_Nil: "entity_type stack [] = Inr ''JsonObject''"
  by (simp add: entity_type_def unflattenAndResolveTypes_def object_keys_def object_entries_def)


section \<open>Walking a path\<close>

lemma map_of_assign: "map_of (assign ps k v) k' = (if k' = k then Some v else map_of ps k')"
  by (induction ps) auto



lemma split_on_nonempty: "split_on c s \<noteq> []"
  by (induction s) (auto split: list.splits)

lemma length_split_on: "length (split_on c s) = Suc (length (filter (\<lambda>x. x = c) s))"
  by (induction s) (auto split: list.splits simp: split_on_nonempty)

lemma segments_parts: "segments item = parts_of item @ [lastPart_of item]"
  by (simp add: segments_def parts_of_def lastPart_of_def split_on_nonempty)

lemma length_parts_of: "length (parts_of item) = depth item"
  by (simp add: parts_of_def depth_def dots_def length_split_on)

lemma join_Cons: "ys \<noteq> [] \<Longrightarrow> join sep (x # ys) = x @ sep @ join sep ys"
  by (cases ys) auto

lemma join_hd_Cons: "join sep ((x # w) # ws) = x # join sep (w # ws)"
  by (cases ws) auto

lemma join_split_on: "join [c] (split_on c s) = s"
proof (induction s)
  case Nil
  show ?case by simp
next
  case (Cons x xs)
  show ?case
  proof (cases "x = c")
    case True
    then show ?thesis using Cons by (simp add: join_Cons split_on_nonempty)
  next
    case False
    obtain w ws where r: "split_on c xs = w # ws"
      using split_on_nonempty [of c xs] by (cases "split_on c xs") auto
    with False Cons show ?thesis by (simp add: join_hd_Cons)
  qed
qed

lemma segments_inj: "segments a = segments b \<Longrightarrow> valueName a = valueName b"
  unfolding segments_def using join_split_on by metis

lemma walk_Cons_shape:
  assumes "walk stack t (n # rest) lastPart item = Inr t'"
  shows "\<exists>props b c c'. enter_star t n = Some (ObjectType props b)
          \<and> c = (case map_of props n of Some c \<Rightarrow> c | None \<Rightarrow> new_child rest)
          \<and> walk stack c rest lastPart item = Inr c'
          \<and> t' = leave_star t n (ObjectType (assign props n c') b)"
proof -
  obtain node where es: "enter_star t n = Some node"
    using assms by (cases "enter_star t n") simp_all
  obtain props b where node: "node = ObjectType props b"
    using assms es by (cases node) simp_all
  define c where "c = (case map_of props n of Some c \<Rightarrow> c | None \<Rightarrow> new_child rest)"
  have np: "\<not> (map_of props n = None \<and> n \<in> set Object_prototype_keys)"
  proof
    assume "map_of props n = None \<and> n \<in> set Object_prototype_keys"
    then have "walk stack t (n # rest) lastPart item = Inl (prototype_member_error n rest lastPart item)"
      using es node by simp
    with assms show False by simp
  qed
  have eq: "walk stack t (n # rest) lastPart item =
      (case walk stack c rest lastPart item of
         Inl e \<Rightarrow> Inl e
       | Inr c' \<Rightarrow> Inr (leave_star t n (ObjectType (assign props n c') b)))"
    using es node np unfolding c_def by (cases "map_of props n") (simp_all add: Let_def)
  obtain c' where w: "walk stack c rest lastPart item = Inr c'"
    and t': "t' = leave_star t n (ObjectType (assign props n c') b)"
    using assms unfolding eq by (cases "walk stack c rest lastPart item") simp_all
  from es node c_def w t' show ?thesis by blast
qed

lemma child_enter: "enter_star t n = Some (ObjectType props b) \<Longrightarrow> child t n = map_of props n"
  by (simp add: child_def)

lemma child_leave_same:
  "enter_star t n = Some (ObjectType props b) \<Longrightarrow>
   child (leave_star t n (ObjectType props' b')) n = map_of props' n"
  by (cases t) (auto simp: child_def enter_star_def leave_star_def split: if_splits)

lemma child_leave_other:
  "enter_star t n = Some (ObjectType props b) \<Longrightarrow> m \<noteq> n \<Longrightarrow>
   map_of props' m = map_of props m \<Longrightarrow>
   child (leave_star t n (ObjectType props' b')) m = child t m"
  by (cases t) (auto simp: child_def enter_star_def leave_star_def split: if_splits)

lemma walk_Cons_Inr:
  assumes "walk stack t (n # rest) lastPart item = Inr t'"
  shows "\<exists>c c'. walk stack c rest lastPart item = Inr c' \<and> child t' n = Some c'
          \<and> (\<forall>m. m \<noteq> n \<longrightarrow> child t' m = child t m)
          \<and> (child t n = Some c \<or> child t n = None \<and> c = new_child rest)"
proof -
  obtain props b c c' where es: "enter_star t n = Some (ObjectType props b)"
    and c: "c = (case map_of props n of Some c \<Rightarrow> c | None \<Rightarrow> new_child rest)"
    and w: "walk stack c rest lastPart item = Inr c'"
    and t': "t' = leave_star t n (ObjectType (assign props n c') b)"
    using walk_Cons_shape [OF assms] by blast
  have c1: "child t' n = Some c'"
    unfolding t' by (simp add: child_leave_same [OF es] map_of_assign)
  have c2: "\<forall>m. m \<noteq> n \<longrightarrow> child t' m = child t m"
    unfolding t' by (simp add: child_leave_other [OF es] map_of_assign)
  have c3: "child t n = Some c \<or> child t n = None \<and> c = new_child rest"
    unfolding child_enter [OF es] c by (cases "map_of props n") simp_all
  from w c1 c2 c3 show ?thesis by blast
qed

lemma walk_Nil_Inr:
  assumes "walk stack t [] lastPart item = Inr t'"
  shows "lastPart \<noteq> ''*'' \<and> (\<exists>props b ty. t = ObjectType props b \<and> resolveType stack item = Inr ty
           \<and> t' = ObjectType (set_property props lastPart ty) b)"
proof -
  have ls: "lastPart \<noteq> ''*''"
    using assms by (auto split: if_splits)
  then have eq: "walk stack t [] lastPart item =
     (case t of
        ObjectType props b \<Rightarrow>
          (case resolveType stack item of
             Inl e \<Rightarrow> Inl e
           | Inr type \<Rightarrow> Inr (ObjectType (set_property props lastPart type) b))
      | _ \<Rightarrow> Inl (NotAnObject (Node t) item))"
    by simp
  show ?thesis
    using assms ls unfolding eq
    by (cases t; cases "resolveType stack item") simp_all
qed

lemma walk_nonobject:
  assumes "\<not> is_object t" and "walk stack t parts lastPart item = Inr t'"
  shows "\<not> is_object t'"
proof (cases parts)
  case Nil
  then obtain props b where "t = ObjectType props b"
    using walk_Nil_Inr [of stack t lastPart item t'] assms(2) by blast
  with assms(1) show ?thesis by simp
next
  case (Cons n rest)
  obtain props b c' where es: "enter_star t n = Some (ObjectType props b)"
    and t': "t' = leave_star t n (ObjectType (assign props n c') b)"
    using walk_Cons_shape [of stack t n rest lastPart item t'] assms(2) Cons by blast
  have star: "n = ''*''"
  proof (rule ccontr)
    assume "n \<noteq> ''*''"
    then have "enter_star t n = Some t" by (simp add: enter_star_def)
    with es assms(1) show False by simp
  qed
  obtain items b0 where t: "t = ArrayType items b0"
    using es unfolding star enter_star_def by (cases t) simp_all
  show ?thesis
    unfolding t' t star leave_star_def by simp
qed


lemma walk_through_nonobject:
  assumes "node_at t ps = Some v" and "\<not> is_object v" and "q \<noteq> ''*''"
    and "rest = [] \<longrightarrow> lastPart = q" and "rest \<noteq> [] \<longrightarrow> hd rest = q"
  shows "\<exists>e. walk stack t (ps @ rest) lastPart item = Inl e"
  using assms(1)
proof (induction ps arbitrary: t)
  case Nil
  then have tv: "t = v" by simp
  show ?case
  proof (cases rest)
    case Nil
    with assms have lq: "lastPart \<noteq> ''*''" by simp
    show ?thesis
      using assms(2) lq unfolding Nil tv by (cases v) simp_all
  next
    case (Cons n r)
    with assms have nq: "n \<noteq> ''*''" by simp
    then have es: "enter_star v n = Some v" by (simp add: enter_star_def)
    show ?thesis
      using assms(2) es unfolding Cons tv by (cases v) simp_all
  qed
next
  case (Cons n ps)
  obtain c where c: "child t n = Some c" and at: "node_at c ps = Some v"
    using Cons.prems by (auto split: option.splits)
  obtain node where es: "enter_star t n = Some node"
    using c by (cases "enter_star t n") (auto simp: child_def)
  obtain props b where node: "node = ObjectType props b" and mp: "map_of props n = Some c"
    using c es by (cases node) (auto simp: child_def)
  obtain e where "walk stack c (ps @ rest) lastPart item = Inl e"
    using Cons.IH [OF at] by blast
  then show ?case using es node mp by simp
qed

lemma walk_creates_leaf:
  assumes "walk stack t parts lastPart item = Inr t'" and "lastPart \<noteq> ''__proto__''"
  shows "\<exists>ty. resolveType stack item = Inr ty \<and> node_at t' (parts @ [lastPart]) = Some ty"
  using assms(1)
proof (induction parts arbitrary: t t')
  case Nil
  obtain props b ty where ls: "lastPart \<noteq> ''*''" and r: "resolveType stack item = Inr ty"
    and t': "t' = ObjectType (set_property props lastPart ty) b"
    using walk_Nil_Inr [OF Nil.prems] by blast
  have "enter_star t' lastPart = Some t'"
    using ls by (simp add: enter_star_def)
  then have "child t' lastPart = Some ty"
    unfolding child_def t' using assms(2) by (simp add: set_property_def map_of_assign)
  with r show ?case by simp
next
  case (Cons n rest)
  obtain c c' where w: "walk stack c rest lastPart item = Inr c'" and ch: "child t' n = Some c'"
    using walk_Cons_Inr [OF Cons.prems] by blast
  obtain ty where "resolveType stack item = Inr ty" and "node_at c' (rest @ [lastPart]) = Some ty"
    using Cons.IH [OF w] by blast
  with ch show ?case by simp
qed

lemma walk_keeps_nonobject:
  assumes "walk stack t hparts hlast h = Inr t'"
    and "node_at t ps = Some v" and "\<not> is_object v"
    and "length ps \<le> Suc (length hparts)"
    and "hparts @ [hlast] = ps \<longrightarrow> (\<forall>ty. resolveType stack h = Inr ty \<longrightarrow> \<not> is_object ty)"
  shows "\<exists>v'. node_at t' ps = Some v' \<and> \<not> is_object v'"
  using assms
proof (induction ps arbitrary: t t' hparts)
  case Nil
  then have "t = v" by simp
  with Nil.prems have "\<not> is_object t'"
    using walk_nonobject [of t stack hparts hlast h t'] by simp
  then show ?case by simp
next
  case (Cons n0 ps')
  obtain c0 where c0: "child t n0 = Some c0" and at: "node_at c0 ps' = Some v"
    using Cons.prems(2) by (auto split: option.splits)
  show ?case
  proof (cases hparts)
    case Nil
    with Cons.prems(4) have ps': "ps' = []" by simp
    with at have v: "v = c0" by simp
    obtain props b ty where ls: "hlast \<noteq> ''*''" and t: "t = ObjectType props b"
      and r: "resolveType stack h = Inr ty"
      and t': "t' = ObjectType (set_property props hlast ty) b"
      using walk_Nil_Inr [of stack t hlast h t'] Cons.prems(1) Nil by blast
    have n0: "n0 \<noteq> ''*''"
    proof
      assume "n0 = ''*''"
      then have "child t n0 = None" unfolding t by (simp add: child_def enter_star_def)
      with c0 show False by simp
    qed
    then have es: "\<And>x. enter_star x n0 = Some x" by (simp add: enter_star_def)
    have m: "map_of props n0 = Some c0"
      using c0 unfolding t child_def es by simp
    have ch': "child t' n0 = map_of (set_property props hlast ty) n0"
      unfolding t' child_def es by simp
    show ?thesis
    proof (cases "hlast = n0 \<and> hlast \<noteq> ''__proto__''")
      case True
      then have "hparts @ [hlast] = n0 # ps'" using Nil ps' by simp
      with Cons.prems(5) r have "\<not> is_object ty" by blast
      moreover from True have eq: "hlast = n0" and np: "hlast \<noteq> ''__proto__''"
        by blast+
      have "set_property props hlast ty = assign props hlast ty"
        unfolding set_property_def using np by (rule if_not_P)
      then have "child t' n0 = Some ty"
        unfolding ch' eq by (simp add: map_of_assign)
      ultimately show ?thesis using ps' by simp
    next
      case False
      have "map_of (set_property props hlast ty) n0 = map_of props n0"
      proof (cases "hlast = ''__proto__''")
        case True
        then have "set_property props hlast ty = props"
          unfolding set_property_def by (rule if_P)
        then show ?thesis by simp
      next
        case np: False
        with False have ne: "n0 \<noteq> hlast" by blast
        have "set_property props hlast ty = assign props hlast ty"
          unfolding set_property_def using np by (rule if_not_P)
        then show ?thesis using ne by (simp add: map_of_assign)
      qed
      then have "child t' n0 = Some c0"
        unfolding ch' using m by simp
      then show ?thesis using ps' v Cons.prems(3) by simp
    qed
  next
    case (Cons n rest)
    obtain c c' where w: "walk stack c rest hlast h = Inr c'" and ch: "child t' n = Some c'"
      and other: "\<forall>m. m \<noteq> n \<longrightarrow> child t' m = child t m"
      and c: "child t n = Some c \<or> child t n = None \<and> c = new_child rest"
      using walk_Cons_Inr [of stack t n rest hlast h t'] Cons.prems(1) Cons by blast
    show ?thesis
    proof (cases "n = n0")
      case False
      then have "child t' n0 = Some c0" using other c0 by simp
      then show ?thesis using at Cons.prems(3) by simp
    next
      case True
      with c c0 have cc: "c = c0" by simp
      have len: "length ps' \<le> Suc (length rest)"
        using Cons.prems(4) Cons by simp
      have leaf: "rest @ [hlast] = ps' \<longrightarrow> (\<forall>ty. resolveType stack h = Inr ty \<longrightarrow> \<not> is_object ty)"
        using Cons.prems(5) Cons True by simp
      obtain v' where "node_at c' ps' = Some v'" and "\<not> is_object v'"
        using Cons.IH [OF w [unfolded cc] at Cons.prems(3) len leaf] by blast
      then show ?thesis using ch True by simp
    qed
  qed
qed

lemma is_object_with_base: "is_object (with_base t b) = is_object t"
  by (cases t) simp_all

lemma getBaseType_object: "getBaseType stack s = Inr t \<Longrightarrow> is_object t \<Longrightarrow> s = ''Object''"
proof (cases stack)
  case 0
  assume "getBaseType stack s = Inr t"
  with 0 show ?thesis by (simp add: getBaseType.simps)
next
  case (Suc k)
  assume a: "getBaseType stack s = Inr t" and o: "is_object t"
  show ?thesis
    using a o unfolding Suc
    by (subst (asm) getBaseType.simps) (auto simp: Let_def split: if_splits sum.splits)
qed

lemma resolveType_object:
  assumes "resolveType stack h = Inr ty" and "is_object ty"
  shows "valueType h = ''Object''"
proof -
  obtain t where t: "getBaseType stack (valueType h) = Inr t"
    using assms(1) by (cases "getBaseType stack (valueType h)") (simp_all add: resolveType_def)
  have "\<exists>b. ty = with_base t b"
    using assms(1) t by (auto simp: resolveType_def Let_def split: if_splits)
  with assms(2) have "is_object t" by (auto simp: is_object_with_base)
  with t show ?thesis by (rule getBaseType_object)
qed

lemma forEach_item_append:
  "forEach_item stack t (xs @ ys) =
     (case forEach_item stack t xs of Inl e \<Rightarrow> Inl e | Inr t' \<Rightarrow> forEach_item stack t' ys)"
  by (induction xs arbitrary: t) (auto split: sum.splits)

lemma conflict_fold:
  assumes "g \<in> set items"
    and "parts_of g = ps @ rest" and "q \<noteq> ''*''"
    and "rest = [] \<longrightarrow> lastPart_of g = q" and "rest \<noteq> [] \<longrightarrow> hd rest = q"
    and "\<forall>h\<in>set items. length ps \<le> Suc (depth h)"
    and "\<forall>h\<in>set items. segments h = ps \<longrightarrow> valueType h \<noteq> ''Object''"
    and "node_at t ps = Some v" and "\<not> is_object v"
  shows "\<exists>e. forEach_item stack t items = Inl e"
  using assms(1,6,7,8,9)
proof (induction items arbitrary: t v)
  case Nil
  then show ?case by simp
next
  case (Cons h hs)
  show ?case
  proof (cases "walk stack t (parts_of h) (lastPart_of h) h")
    case (Inl e)
    then show ?thesis by simp
  next
    case (Inr t1)
    have "h \<noteq> g"
    proof
      assume "h = g"
      then obtain e where "walk stack t (parts_of h) (lastPart_of h) h = Inl e"
        using walk_through_nonobject [OF Cons.prems(4,5) assms(3,4,5), of stack g] assms(2) by auto
      with Inr show False by simp
    qed
    with Cons.prems(1) have g: "g \<in> set hs" by auto
    have len: "length ps \<le> Suc (length (parts_of h))"
      using Cons.prems(2) by (simp add: length_parts_of)
    have leaf: "parts_of h @ [lastPart_of h] = ps \<longrightarrow> (\<forall>ty. resolveType stack h = Inr ty \<longrightarrow> \<not> is_object ty)"
      using Cons.prems(3) resolveType_object [of stack h] by (auto simp: segments_parts)
    obtain v' where at: "node_at t1 ps = Some v'" and no: "\<not> is_object v'"
      using walk_keeps_nonobject [OF Inr Cons.prems(4,5) len leaf] by blast
    have "\<exists>e. forEach_item stack t1 hs = Inl e"
      using Cons.IH [OF g _ _ at no] Cons.prems(2,3) by simp
    then show ?thesis using Inr by simp
  qed
qed








section \<open>The order of the keys\<close>















section \<open>One descriptor replaced\<close>




























section \<open>Siblings in the rendering\<close>









section \<open>Two neighbours exchanged\<close>





















section \<open>Array types\<close>

text \<open>
  C4 (as found in the source). The claim asks that a declared type \<^verbatim>\<open>Array<T>\<close> with an
  array type \<open>T\<close> fails. \<^verbatim>\<open>getBaseType\<close> has no such test: it recurses on the text
  between \<^verbatim>\<open>Array<\<close> and the last \<^verbatim>\<open>>\<close>, so \<^verbatim>\<open>Array<Array<Number>>\<close> resolves, with
  room for three calls, to an array whose element is an array of numbers, and the emitter
  prints it as such.
\<close>

theorem array_of_arrays_counterexample:
  "\<forall>stack. getBaseType (Suc (Suc (Suc stack))) ''Array<Array<Number>>''
     = Inr (ArrayType (ArrayType (PrimitiveType T_number no_base) no_base) no_base)
   \<and> stringifyTypes (ArrayType (ArrayType (PrimitiveType T_number no_base) no_base) no_base)
     = ''Array<Array<number>>''"
proof (rule allI)
  fix stack
  show "getBaseType (Suc (Suc (Suc stack))) ''Array<Array<Number>>''
     = Inr (ArrayType (ArrayType (PrimitiveType T_number no_base) no_base) no_base)
   \<and> stringifyTypes (ArrayType (ArrayType (PrimitiveType T_number no_base) no_base) no_base)
     = ''Array<Array<number>>''"
    using getBaseType_Array [of "Suc (Suc stack)" "''Array<Number>''"]
      getBaseType_Array [of "Suc stack" "''Number''"]
    by (simp add: getBaseType_Number primitive_name_def)
qed

text \<open>
  C4 (amended). For every text \<open>T\<close>, the declared type \<^verbatim>\<open>Array<T>\<close> resolves to an array
  of what \<open>T\<close> resolves to, in one call more than \<open>T\<close> takes, and fails with the error of
  \<open>T\<close> when resolving \<open>T\<close> fails; \<open>T\<close> may itself be an array type. So \<open>T\<close> wrapped \<open>n\<close>
  times resolves to what \<open>T\<close> resolves to, wrapped in \<open>n\<close> arrays, when the call stack has
  room for \<open>n\<close> calls more than \<open>T\<close> is given; with no room left for a call the resolution
  ends with the error of the engine, so that a type nested \<open>n\<close> times fails with that
  error when there is room for \<open>n\<close> calls only.
\<close>

theorem array_type_resolves_recursively:
  "getBaseType (Suc stack) (''Array<'' @ T @ ''>'') =
     (case getBaseType stack T of Inl e \<Rightarrow> Inl e | Inr items \<Rightarrow> Inr (ArrayType items no_base))
   \<and> getBaseType (n + stack) (((\<lambda>s. ''Array<'' @ s @ ''>'') ^^ n) T) =
     (case getBaseType stack T of
        Inl e \<Rightarrow> Inl e
      | Inr items \<Rightarrow> Inr (((\<lambda>t. ArrayType t no_base) ^^ n) items))
   \<and> getBaseType 0 T = Inl CallStackExceeded
   \<and> getBaseType n (((\<lambda>s. ''Array<'' @ s @ ''>'') ^^ n) T) = Inl CallStackExceeded"
proof -
  have one: "\<And>k s. getBaseType (Suc k) (''Array<'' @ s @ ''>'') =
     (case getBaseType k s of Inl e \<Rightarrow> Inl e | Inr items \<Rightarrow> Inr (ArrayType items no_base))"
    by (rule getBaseType_Array)
  have many: "\<And>k. getBaseType (n + k) (((\<lambda>s. ''Array<'' @ s @ ''>'') ^^ n) T) =
     (case getBaseType k T of
        Inl e \<Rightarrow> Inl e
      | Inr items \<Rightarrow> Inr (((\<lambda>t. ArrayType t no_base) ^^ n) items))"
  proof (induction n)
    case 0
    show ?case by (cases "getBaseType k T") simp_all
  next
    case (Suc n)
    show ?case
      using one [of "n + k" "((\<lambda>s. ''Array<'' @ s @ ''>'') ^^ n) T"] Suc [of k]
      by (cases "getBaseType k T") simp_all
  qed
  have zero: "getBaseType 0 T = Inl CallStackExceeded"
    by (simp add: getBaseType.simps)
  have "getBaseType n (((\<lambda>s. ''Array<'' @ s @ ''>'') ^^ n) T) = Inl CallStackExceeded"
    using many [of 0] zero by simp
  with one many zero show ?thesis by blast
qed

section \<open>A trailing wildcard\<close>

text \<open>
  C6. A field list that holds a descriptor whose last path segment is \<^verbatim>\<open>*\<close> builds no
  tree: the build ends with an error, whatever the other descriptors are.
\<close>

theorem trailing_star_fails:
  assumes "item \<in> set inputItems" and "lastPart_of item = ''*''"
  shows "\<exists>e. unflattenAndResolveTypes stack inputItems = Inl e"
  using assms(1)
proof (rule build_fails)
  fix node
  show "\<exists>e. walk stack node (parts_of item) (lastPart_of item) item = Inl e"
    unfolding assms(2) by (rule walk_trailing_star)
qed

theorem trailing_star_fails_witness:
  "lastPart_of
     \<lparr>valueName = ''b.*'', valueType = ''String'', valueDescription = [],
      valueRestrictions = None, valueOptional = None, valueOptionalBehavior = None\<rparr> = ''*''
   \<and> (\<forall>stack. \<exists>e. unflattenAndResolveTypes stack
          [\<lparr>valueName = ''a'', valueType = ''String'', valueDescription = [],
      valueRestrictions = None, valueOptional = None, valueOptionalBehavior = None\<rparr>,
           \<lparr>valueName = ''b.c'', valueType = ''Number'', valueDescription = [],
      valueRestrictions = None, valueOptional = None, valueOptionalBehavior = None\<rparr>,
           \<lparr>valueName = ''b.*'', valueType = ''String'', valueDescription = [],
      valueRestrictions = None, valueOptional = None, valueOptionalBehavior = None\<rparr>] = Inl e)"
  using trailing_star_fails
    [of "\<lparr>valueName = ''b.*'', valueType = ''String'', valueDescription = [],
      valueRestrictions = None, valueOptional = None, valueOptionalBehavior = None\<rparr>"
        "[\<lparr>valueName = ''a'', valueType = ''String'', valueDescription = [],
      valueRestrictions = None, valueOptional = None, valueOptionalBehavior = None\<rparr>,
          \<lparr>valueName = ''b.c'', valueType = ''Number'', valueDescription = [],
      valueRestrictions = None, valueOptional = None, valueOptionalBehavior = None\<rparr>,
          \<lparr>valueName = ''b.*'', valueType = ''String'', valueDescription = [],
      valueRestrictions = None, valueOptional = None, valueOptionalBehavior = None\<rparr>]"]
  by (simp add: lastPart_of_def)

text \<open>
  The scenario of the specification: \<^verbatim>\<open>a\<close>, \<^verbatim>\<open>b.c\<close> and \<^verbatim>\<open>b.*\<close>. The third item reaches
  the object \<^verbatim>\<open>b\<close> and stops at the test of the last segment.
\<close>

lemma depth_independent_scenario:
  "unflattenAndResolveTypes (Suc stack)
     [\<lparr>valueName = ''a'', valueType = ''String'', valueDescription = [],
      valueRestrictions = None, valueOptional = None, valueOptionalBehavior = None\<rparr>,
      \<lparr>valueName = ''b.c'', valueType = ''Number'', valueDescription = [],
      valueRestrictions = None, valueOptional = None, valueOptionalBehavior = None\<rparr>,
      \<lparr>valueName = ''b.*'', valueType = ''String'', valueDescription = [],
      valueRestrictions = None, valueOptional = None, valueOptionalBehavior = None\<rparr>]
   = Inl (NeedLastStarHandler
            (Node (ObjectType [(''c'', PrimitiveType T_number \<lparr>optional = None, jsdoc = Some []\<rparr>)] no_base))
            \<lparr>valueName = ''b.*'', valueType = ''String'', valueDescription = [],
      valueRestrictions = None, valueOptional = None, valueOptionalBehavior = None\<rparr>)"
  by (simp add: unflattenAndResolveTypes_def depth_def dots_def parts_of_def lastPart_of_def
      resolveType_def getBaseType_String getBaseType_Number isObsRequestField_def
      enter_star_def leave_star_def new_child_def Object_prototype_keys_def set_property_def)

section \<open>Unknown declared types\<close>

text \<open>
  C8 (as found in the source). The claim asks that the error for an unknown declared type
  shows the type name and the field path. The error is made from the type name alone
  (\<^verbatim>\<open>Unknown type: Foo\<close>): two fields with different paths and the same unknown type end
  their builds with the same error.
\<close>

theorem unknown_type_error_counterexample:
  "\<forall>stack. unflattenAndResolveTypes (Suc stack)
     [\<lparr>valueName = ''sceneName'', valueType = ''Foo'', valueDescription = [],
      valueRestrictions = None, valueOptional = None, valueOptionalBehavior = None\<rparr>]
     = Inl (UnknownType ''Foo'')
   \<and> unflattenAndResolveTypes (Suc stack)
     [\<lparr>valueName = ''inputName'', valueType = ''Foo'', valueDescription = [],
      valueRestrictions = None, valueOptional = None, valueOptionalBehavior = None\<rparr>]
     = Inl (UnknownType ''Foo'')
   \<and> unknown_type_message ''Foo'' = ''Unknown type: Foo''"
proof (rule allI)
  fix stack
  show "unflattenAndResolveTypes (Suc stack)
     [\<lparr>valueName = ''sceneName'', valueType = ''Foo'', valueDescription = [],
      valueRestrictions = None, valueOptional = None, valueOptionalBehavior = None\<rparr>]
     = Inl (UnknownType ''Foo'')
   \<and> unflattenAndResolveTypes (Suc stack)
     [\<lparr>valueName = ''inputName'', valueType = ''Foo'', valueDescription = [],
      valueRestrictions = None, valueOptional = None, valueOptionalBehavior = None\<rparr>]
     = Inl (UnknownType ''Foo'')
   \<and> unknown_type_message ''Foo'' = ''Unknown type: Foo''"
    using getBaseType_unknown [of "''Foo''" stack]
    by (simp add: unflattenAndResolveTypes_def depth_def dots_def parts_of_def lastPart_of_def
        resolveType_def startsWith_def ARRAY_PREFIX_def unknown_type_message_def)
qed

text \<open>
  C8 (amended). \<^verbatim>\<open>getBaseType\<close> takes from a declared type that starts with \<^verbatim>\<open>Array<\<close>
  the text between this prefix and the last \<^verbatim>\<open>>\<close>, again and again; what follows the
  last \<^verbatim>\<open>>\<close> is dropped (\<^verbatim>\<open>Array<Number>junk\<close> resolves to an array of numbers). When the
  text this ends at, within the call stack, is none of \<^verbatim>\<open>Boolean\<close>, \<^verbatim>\<open>String\<close>,
  \<^verbatim>\<open>Number\<close>, \<^verbatim>\<open>Object\<close>, \<^verbatim>\<open>Any\<close>, the resolution of the descriptor fails, the build of
  every field list that holds the descriptor ends with an error, and the error of the
  resolution is \<^verbatim>\<open>Unknown type:\<close> followed by that text: it names the text the
  resolution ended at and no field path, and is the same whatever the path of the
  descriptor is. When the text is one of the five names the declared type resolves.
\<close>

theorem unknown_type_fails:
  assumes "item \<in> set inputItems"
    and "innermost stack (valueType item) = Some t"
    and "t \<notin> set [''Boolean'', ''String'', ''Number'', ''Object'', ''Any'']"
  shows "(\<exists>e. unflattenAndResolveTypes stack inputItems = Inl e)
       \<and> (\<forall>name. resolveType stack (item\<lparr>valueName := name\<rparr>) = Inl (UnknownType t))
       \<and> unknown_type_message t = ''Unknown type: '' @ t
       \<and> (\<forall>s u. innermost stack s = Some u
              \<and> u \<in> set [''Boolean'', ''String'', ''Number'', ''Object'', ''Any'']
            \<longrightarrow> (\<exists>ty. getBaseType stack s = Inr ty))"
proof -
  have g: "getBaseType stack (valueType item) = Inl (UnknownType t)"
    using assms(2,3) by (rule getBaseType_innermost_unknown)
  have r: "resolveType stack item = Inl (UnknownType t)"
    using g by (rule resolveType_fails)
  have a: "\<exists>e. unflattenAndResolveTypes stack inputItems = Inl e"
    using assms(1) by (rule build_fails) (rule walk_unresolved [OF r])
  have b: "\<forall>name. resolveType stack (item\<lparr>valueName := name\<rparr>) = Inl (UnknownType t)"
    using r by (simp add: resolveType_name_irrelevant)
  have c: "unknown_type_message t = ''Unknown type: '' @ t"
    by (simp add: unknown_type_message_def)
  have d: "\<forall>s u. innermost stack s = Some u
              \<and> u \<in> set [''Boolean'', ''String'', ''Number'', ''Object'', ''Any'']
            \<longrightarrow> (\<exists>ty. getBaseType stack s = Inr ty)"
    using getBaseType_innermost_known by blast
  from a b c d show ?thesis by blast
qed

theorem unknown_type_fails_witness:
  "\<forall>stack.
     (\<exists>e. unflattenAndResolveTypes (Suc (Suc stack))
          [\<lparr>valueName = ''sceneName'', valueType = ''String'', valueDescription = ''Name'',
             valueRestrictions = None, valueOptional = None, valueOptionalBehavior = None\<rparr>,
           \<lparr>valueName = ''sceneItems'', valueType = ''Array<Foo>'', valueDescription = ''Items'',
             valueRestrictions = None, valueOptional = None, valueOptionalBehavior = None\<rparr>] = Inl e)
   \<and> resolveType (Suc (Suc stack))
         \<lparr>valueName = ''other.path'', valueType = ''Array<Foo>'', valueDescription = ''Items'',
           valueRestrictions = None, valueOptional = None, valueOptionalBehavior = None\<rparr>
       = Inl (UnknownType ''Foo'')
   \<and> (\<exists>ty. getBaseType (Suc (Suc stack)) ''Array<Number>junk'' = Inr ty)"
proof (rule allI)
  fix stack
  have i: "innermost (Suc (Suc stack)) ''Array<Foo>'' = Some ''Foo''"
    by (rule innermost_Array_Foo)
  have j: "innermost (Suc (Suc stack)) ''Array<Number>junk'' = Some ''Number''"
    by (rule innermost_Array_Number_junk)
  show "(\<exists>e. unflattenAndResolveTypes (Suc (Suc stack))
          [\<lparr>valueName = ''sceneName'', valueType = ''String'', valueDescription = ''Name'',
             valueRestrictions = None, valueOptional = None, valueOptionalBehavior = None\<rparr>,
           \<lparr>valueName = ''sceneItems'', valueType = ''Array<Foo>'', valueDescription = ''Items'',
             valueRestrictions = None, valueOptional = None, valueOptionalBehavior = None\<rparr>] = Inl e)
   \<and> resolveType (Suc (Suc stack))
         \<lparr>valueName = ''other.path'', valueType = ''Array<Foo>'', valueDescription = ''Items'',
           valueRestrictions = None, valueOptional = None, valueOptionalBehavior = None\<rparr>
       = Inl (UnknownType ''Foo'')
   \<and> (\<exists>ty. getBaseType (Suc (Suc stack)) ''Array<Number>junk'' = Inr ty)"
    using unknown_type_fails
      [of "\<lparr>valueName = ''sceneItems'', valueType = ''Array<Foo>'', valueDescription = ''Items'',
             valueRestrictions = None, valueOptional = None, valueOptionalBehavior = None\<rparr>"
        "[\<lparr>valueName = ''sceneName'', valueType = ''String'', valueDescription = ''Name'',
             valueRestrictions = None, valueOptional = None, valueOptionalBehavior = None\<rparr>,
           \<lparr>valueName = ''sceneItems'', valueType = ''Array<Foo>'', valueDescription = ''Items'',
             valueRestrictions = None, valueOptional = None, valueOptionalBehavior = None\<rparr>]"
        "Suc (Suc stack)" "''Foo''"]
      i j
    by simp
qed

section \<open>Entities without fields\<close>

text \<open>
  C9. An entity whose field list is empty gets a fixed marker and no rendering of a tree:
  in the text a generator returns, the entry of the entity is \<^verbatim>\<open>undefined\<close> for an event
  and for a response (there after a tab), and \<^verbatim>\<open>never\<close> for the parameters of a request,
  whatever the entities before and after it are; the generator fails only where the entry
  of another entity does. The callback returns the marker before
  \<^verbatim>\<open>unflattenAndResolveTypes\<close> and \<^verbatim>\<open>stringifyTypes\<close> are reached: it gives the marker
  with any builder and any emitter in their place. What these two give for the empty
  list, the empty-object spelling \<^verbatim>\<open>JsonObject\<close>, is never the entry.
\<close>

theorem no_fields_marker:
  "(dataFields ev = [] \<longrightarrow>
      generateObsEventTypes stack (evs @ ev # evs') =
        (case map_throwing (event_entry stack) evs of
           Inl e \<Rightarrow> Inl e
         | Inr a \<Rightarrow>
            (case map_throwing (event_entry stack) evs' of
               Inl e \<Rightarrow> Inl e
             | Inr b \<Rightarrow> Inr (join newline (a @ (eventType ev @ '': undefined;'') # b))))
      \<and> generateObsEventTypes stack [ev] = Inr (eventType ev @ '': undefined;'')
      \<and> (\<forall>build emit. event_callback build emit ev = Inr (eventType ev @ '': undefined;''))
      \<and> event_entry stack ev \<noteq> Inr (eventType ev @ '': JsonObject;''))
   \<and> (requestFields rq = [] \<longrightarrow>
      generateObsRequestTypes stack (rqs @ rq # rqs') =
        (case map_throwing (request_entry stack) rqs of
           Inl e \<Rightarrow> Inl e
         | Inr a \<Rightarrow>
            (case map_throwing (request_entry stack) rqs' of
               Inl e \<Rightarrow> Inl e
             | Inr b \<Rightarrow> Inr (join newline (a @ (requestType rq @ '': never;'') # b))))
      \<and> generateObsRequestTypes stack [rq] = Inr (requestType rq @ '': never;'')
      \<and> (\<forall>build emit. request_callback build emit rq = Inr (requestType rq @ '': never;''))
      \<and> request_entry stack rq \<noteq> Inr (requestType rq @ '': JsonObject;''))
   \<and> (responseFields rs = [] \<longrightarrow>
      generateObsResponseTypes stack (rss @ rs # rss') =
        (case map_throwing (response_entry stack) rss of
           Inl e \<Rightarrow> Inl e
         | Inr a \<Rightarrow>
            (case map_throwing (response_entry stack) rss' of
               Inl e \<Rightarrow> Inl e
             | Inr b \<Rightarrow> Inr (join newline (a @ ([CHR 0x09] @ requestType rs @ '': undefined;'') # b))))
      \<and> generateObsResponseTypes stack [rs] = Inr ([CHR 0x09] @ requestType rs @ '': undefined;'')
      \<and> (\<forall>build emit. response_callback build emit rs
            = Inr ([CHR 0x09] @ requestType rs @ '': undefined;''))
      \<and> response_entry stack rs \<noteq> Inr (requestType rs @ '': JsonObject;''))
   \<and> entity_type stack [] = Inr ''JsonObject''"
proof -
  have ev: "dataFields ev = [] \<Longrightarrow> event_entry stack ev = Inr (eventType ev @ '': undefined;'')"
    by (simp add: event_entry_def event_callback_def)
  have rq: "requestFields rq = [] \<Longrightarrow> request_entry stack rq = Inr (requestType rq @ '': never;'')"
    by (simp add: request_entry_def request_callback_def)
  have rs: "responseFields rs = [] \<Longrightarrow>
      response_entry stack rs = Inr ([CHR 0x09] @ requestType rs @ '': undefined;'')"
    by (simp add: response_entry_def response_callback_def)
  have a: "dataFields ev = [] \<longrightarrow>
      generateObsEventTypes stack (evs @ ev # evs') =
        (case map_throwing (event_entry stack) evs of
           Inl e \<Rightarrow> Inl e
         | Inr a \<Rightarrow>
            (case map_throwing (event_entry stack) evs' of
               Inl e \<Rightarrow> Inl e
             | Inr b \<Rightarrow> Inr (join newline (a @ (eventType ev @ '': undefined;'') # b))))
      \<and> generateObsEventTypes stack [ev] = Inr (eventType ev @ '': undefined;'')
      \<and> (\<forall>build emit. event_callback build emit ev = Inr (eventType ev @ '': undefined;''))
      \<and> event_entry stack ev \<noteq> Inr (eventType ev @ '': JsonObject;'')"
    using ev by (simp add: generateObsEventTypes_def map_throwing_append event_callback_def
        split: sum.splits)
  have b: "requestFields rq = [] \<longrightarrow>
      generateObsRequestTypes stack (rqs @ rq # rqs') =
        (case map_throwing (request_entry stack) rqs of
           Inl e \<Rightarrow> Inl e
         | Inr a \<Rightarrow>
            (case map_throwing (request_entry stack) rqs' of
               Inl e \<Rightarrow> Inl e
             | Inr b \<Rightarrow> Inr (join newline (a @ (requestType rq @ '': never;'') # b))))
      \<and> generateObsRequestTypes stack [rq] = Inr (requestType rq @ '': never;'')
      \<and> (\<forall>build emit. request_callback build emit rq = Inr (requestType rq @ '': never;''))
      \<and> request_entry stack rq \<noteq> Inr (requestType rq @ '': JsonObject;'')"
    using rq by (simp add: generateObsRequestTypes_def map_throwing_append request_callback_def
        split: sum.splits)
  have c: "responseFields rs = [] \<longrightarrow>
      generateObsResponseTypes stack (rss @ rs # rss') =
        (case map_throwing (response_entry stack) rss of
           Inl e \<Rightarrow> Inl e
         | Inr a \<Rightarrow>
            (case map_throwing (response_entry stack) rss' of
               Inl e \<Rightarrow> Inl e
             | Inr b \<Rightarrow> Inr (join newline (a @ ([CHR 0x09] @ requestType rs @ '': undefined;'') # b))))
      \<and> generateObsResponseTypes stack [rs] = Inr ([CHR 0x09] @ requestType rs @ '': undefined;'')
      \<and> (\<forall>build emit. response_callback build emit rs
            = Inr ([CHR 0x09] @ requestType rs @ '': undefined;''))
      \<and> response_entry stack rs \<noteq> Inr (requestType rs @ '': JsonObject;'')"
    using rs by (simp add: generateObsResponseTypes_def map_throwing_append response_callback_def
        split: sum.splits)
  have d: "entity_type stack [] = Inr ''JsonObject''"
    by (rule entity_type_Nil)
  from a b c d show ?thesis by blast
qed

theorem no_fields_marker_witness:
  "\<forall>stack.
     generateObsEventTypes (Suc stack)
       [\<lparr>eventType = ''ExitStarted'', dataFields = []\<rparr>,
        \<lparr>eventType = ''StudioModeStateChanged'',
         dataFields = [\<lparr>valueName = ''studioModeEnabled'', valueType = ''Boolean'', valueDescription = [],
           valueRestrictions = None, valueOptional = None, valueOptionalBehavior = None\<rparr>]\<rparr>]
       = Inr (join newline
           [''ExitStarted: undefined;'',
            join newline [''StudioModeStateChanged: {'', ''studioModeEnabled: boolean;'', ''};'']])
   \<and> generateObsRequestTypes stack
       [\<lparr>requestType = ''GetVersion'', requestFields = [], responseFields = []\<rparr>]
       = Inr ''GetVersion: never;''
   \<and> generateObsResponseTypes stack
       [\<lparr>requestType = ''GetVersion'', requestFields = [], responseFields = []\<rparr>]
       = Inr (CHR 0x09 # ''GetVersion: undefined;'')"
proof (rule allI)
  fix stack
  have x: "map_throwing (event_entry (Suc stack))
       [\<lparr>eventType = ''StudioModeStateChanged'',
         dataFields = [\<lparr>valueName = ''studioModeEnabled'', valueType = ''Boolean'', valueDescription = [],
           valueRestrictions = None, valueOptional = None, valueOptionalBehavior = None\<rparr>]\<rparr>]
     = Inr [join newline [''StudioModeStateChanged: {'', ''studioModeEnabled: boolean;'', ''};'']]"
    by (simp add: event_entry_def event_callback_def unflattenAndResolveTypes_def depth_def dots_def
        parts_of_def lastPart_of_def resolveType_def getBaseType_Boolean isObsRequestField_def
        set_property_def object_keys_def object_entries_def array_index_def is_digit_def
        doc_lines_def separator_def newline_def primitive_name_def)
  show "generateObsEventTypes (Suc stack)
       [\<lparr>eventType = ''ExitStarted'', dataFields = []\<rparr>,
        \<lparr>eventType = ''StudioModeStateChanged'',
         dataFields = [\<lparr>valueName = ''studioModeEnabled'', valueType = ''Boolean'', valueDescription = [],
           valueRestrictions = None, valueOptional = None, valueOptionalBehavior = None\<rparr>]\<rparr>]
       = Inr (join newline
           [''ExitStarted: undefined;'',
            join newline [''StudioModeStateChanged: {'', ''studioModeEnabled: boolean;'', ''};'']])
   \<and> generateObsRequestTypes stack
       [\<lparr>requestType = ''GetVersion'', requestFields = [], responseFields = []\<rparr>]
       = Inr ''GetVersion: never;''
   \<and> generateObsResponseTypes stack
       [\<lparr>requestType = ''GetVersion'', requestFields = [], responseFields = []\<rparr>]
       = Inr (CHR 0x09 # ''GetVersion: undefined;'')"
    using no_fields_marker
      [of "\<lparr>eventType = ''ExitStarted'', dataFields = []\<rparr>" "Suc stack" "[]"
        "[\<lparr>eventType = ''StudioModeStateChanged'',
         dataFields = [\<lparr>valueName = ''studioModeEnabled'', valueType = ''Boolean'', valueDescription = [],
           valueRestrictions = None, valueOptional = None, valueOptionalBehavior = None\<rparr>]\<rparr>]"]
      no_fields_marker
      [of _ stack _ _ "\<lparr>requestType = ''GetVersion'', requestFields = [], responseFields = []\<rparr>" _ _
        "\<lparr>requestType = ''GetVersion'', requestFields = [], responseFields = []\<rparr>"]
      x
    by simp
qed

section \<open>Optionality\<close>

text \<open>
  C3 (as found in the source). The claim asks that a descriptor of a response never yields
  an optional marker, a restriction line or a default line, also when the object holds a
  member \<^verbatim>\<open>valueOptional\<close>. \<^verbatim>\<open>isObsRequestField\<close> looks at the object only
  (\<^verbatim>\<open>'valueOptional' in val\<close>), not at the list the object came from: a response field
  with the member is rendered with \<^verbatim>\<open>?:\<close> and with both lines.
\<close>

theorem response_optional_counterexample:
  "\<forall>stack. response_entry (Suc stack)
     \<lparr>requestType = ''GetInputList'', requestFields = [],
      responseFields =
        [\<lparr>valueName = ''inputKind'', valueType = ''String'', valueDescription = ''Kind'',
      valueRestrictions = Some ''None'', valueOptional = Some True, valueOptionalBehavior = Some ''All''\<rparr>]\<rparr>
   = Inr (join newline
       [''GetInputList: {'', ''/**'', '' * Kind'', '' * @restrictions None'', '' * @defaultValue All'', '' */'',
        ''inputKind?: string;'', ''};''])
   \<and> resolveType (Suc stack)
        \<lparr>valueName = ''inputKind'', valueType = ''String'', valueDescription = ''Kind'',
      valueRestrictions = Some ''None'', valueOptional = Some True, valueOptionalBehavior = Some ''All''\<rparr>
   = Inr (PrimitiveType T_string
            \<lparr>optional = Some True,
             jsdoc = Some (''Kind'' @ newline @ ''@restrictions None'' @ newline @ ''@defaultValue All'')\<rparr>)"
  by (simp add: response_entry_def response_callback_def entity_type_def unflattenAndResolveTypes_def depth_def dots_def parts_of_def
      lastPart_of_def resolveType_def getBaseType_String isObsRequestField_def
      set_property_def object_keys_def object_entries_def array_index_def is_digit_def
      doc_lines_def separator_def formatJsDoc_def newline_def primitive_name_def)

text \<open>
  C3 (amended). The resolved node takes its optional marker from the member
  \<^verbatim>\<open>valueOptional\<close> of the descriptor, whichever list the descriptor stands in: a
  descriptor without the member yields a node with no optional marker, documented by the
  description alone (no restriction line, no default line); a descriptor with the member
  is treated as a request parameter.
\<close>

theorem optionality_by_member:
  assumes "resolveType stack field = Inr t"
  shows "optional (base_of t) = valueOptional field
       \<and> (valueOptional field = None \<longrightarrow> jsdoc (base_of t) = Some (valueDescription field))"
proof -
  obtain ty where ty: "getBaseType stack (valueType field) = Inr ty"
    using assms by (cases "getBaseType stack (valueType field)") (simp_all add: resolveType_def)
  have b: "\<And>b. base_of (with_base ty b) = b"
    by (cases ty) simp_all
  show ?thesis
    using assms ty by (auto simp: resolveType_def isObsRequestField_def Let_def b split: if_splits)
qed

theorem optionality_by_member_witness:
  "\<forall>stack.
     (\<exists>t. resolveType (Suc stack)
          \<lparr>valueName = ''inputKind'', valueType = ''String'', valueDescription = ''Kind'',
      valueRestrictions = None, valueOptional = None, valueOptionalBehavior = None\<rparr> = Inr t
       \<and> optional (base_of t) = None \<and> jsdoc (base_of t) = Some ''Kind'')
   \<and> (\<exists>t. resolveType (Suc stack)
          \<lparr>valueName = ''inputKind'', valueType = ''String'', valueDescription = ''Kind'',
      valueRestrictions = None, valueOptional = Some False, valueOptionalBehavior = None\<rparr> = Inr t
       \<and> optional (base_of t) = Some False)"
proof (rule allI)
  fix stack
  have a: "resolveType (Suc stack)
          \<lparr>valueName = ''inputKind'', valueType = ''String'', valueDescription = ''Kind'',
      valueRestrictions = None, valueOptional = None, valueOptionalBehavior = None\<rparr>
     = Inr (PrimitiveType T_string \<lparr>optional = None, jsdoc = Some ''Kind''\<rparr>)"
    by (simp add: resolveType_def getBaseType_String isObsRequestField_def)
  have b: "resolveType (Suc stack)
          \<lparr>valueName = ''inputKind'', valueType = ''String'', valueDescription = ''Kind'',
      valueRestrictions = None, valueOptional = Some False, valueOptionalBehavior = None\<rparr>
     = Inr (PrimitiveType T_string \<lparr>optional = Some False, jsdoc = Some ''Kind''\<rparr>)"
    by (simp add: resolveType_def getBaseType_String isObsRequestField_def)
  show "(\<exists>t. resolveType (Suc stack)
          \<lparr>valueName = ''inputKind'', valueType = ''String'', valueDescription = ''Kind'',
      valueRestrictions = None, valueOptional = None, valueOptionalBehavior = None\<rparr> = Inr t
       \<and> optional (base_of t) = None \<and> jsdoc (base_of t) = Some ''Kind'')
   \<and> (\<exists>t. resolveType (Suc stack)
          \<lparr>valueName = ''inputKind'', valueType = ''String'', valueDescription = ''Kind'',
      valueRestrictions = None, valueOptional = Some False, valueOptionalBehavior = None\<rparr> = Inr t
       \<and> optional (base_of t) = Some False)"
    using optionality_by_member [OF a] optionality_by_member [OF b] a b by simp
qed

section \<open>Empty objects\<close>




section \<open>The nested-array scenario\<close>

text \<open>
  C1 (what the source does). For the two descriptors \<^verbatim>\<open>items.*.name\<close> and
  \<^verbatim>\<open>items.*.count\<close> with any descriptions, the element object of the array \<^verbatim>\<open>items\<close>
  gets one property named \<^verbatim>\<open>*\<close>, and the two leaves are placed in the object under
  that property: after \<^verbatim>\<open>currentNode = currentNode.items\<close> the callback does not
  return, so the segment \<^verbatim>\<open>*\<close> is then looked up, and created, as a property. The
  rendering (here for empty descriptions) has the extra level.
\<close>

theorem nested_array_scenario:
  "unflattenAndResolveTypes (Suc stack)
     [\<lparr>valueName = ''items.*.name'', valueType = ''String'', valueDescription = d1,
      valueRestrictions = None, valueOptional = Some False, valueOptionalBehavior = None\<rparr>,
      \<lparr>valueName = ''items.*.count'', valueType = ''Number'', valueDescription = d2,
      valueRestrictions = None, valueOptional = Some True, valueOptionalBehavior = None\<rparr>]
   = Inr (ObjectType
       [(''items'',
         ArrayType
          (ObjectType
            [(''*'',
              ObjectType
               [(''name'', PrimitiveType T_string \<lparr>optional = Some False, jsdoc = Some d1\<rparr>),
                (''count'', PrimitiveType T_number \<lparr>optional = Some True, jsdoc = Some d2\<rparr>)]
               no_base)]
            no_base)
          no_base)]
       no_base)
   \<and> entity_type (Suc stack)
     [\<lparr>valueName = ''items.*.name'', valueType = ''String'', valueDescription = [],
      valueRestrictions = None, valueOptional = Some False, valueOptionalBehavior = None\<rparr>,
      \<lparr>valueName = ''items.*.count'', valueType = ''Number'', valueDescription = [],
      valueRestrictions = None, valueOptional = Some True, valueOptionalBehavior = None\<rparr>]
   = Inr (join newline
       [''{'', ''items: Array<{'', ''*: {'', ''name: string;'', ''count?: number;'', ''};'', ''}>;'', ''}''])"
  by (simp add: entity_type_def unflattenAndResolveTypes_def depth_def dots_def parts_of_def lastPart_of_def
      resolveType_def getBaseType_String getBaseType_Number isObsRequestField_def
      enter_star_def leave_star_def new_child_def Object_prototype_keys_def set_property_def
      object_keys_def object_entries_def array_index_def is_digit_def
      doc_lines_def separator_def newline_def primitive_name_def no_base_def)

section \<open>The argument of the builder\<close>

text \<open>
  C10. \<^verbatim>\<open>unflattenAndResolveTypes\<close> leaves the array it is given, and every descriptor
  object, as they were, whether it returns a tree or throws: the sort works on the array
  made by \<^verbatim>\<open>slice(0)\<close>, which has an address no array had before, and the loop writes
  no descriptor. Every array the store held before the call is unchanged, and the result
  is the one of the builder on the list of records.
\<close>

theorem input_list_unchanged:
  assumes "inputItems < next_array st"
  shows "array_at (snd (unflattenAndResolveTypes_store stack st inputItems)) inputItems = array_at st inputItems
       \<and> field_at (snd (unflattenAndResolveTypes_store stack st inputItems)) = field_at st
       \<and> (\<forall>a. a < next_array st \<longrightarrow>
             array_at (snd (unflattenAndResolveTypes_store stack st inputItems)) a = array_at st a)
       \<and> fst (unflattenAndResolveTypes_store stack st inputItems)
           = unflattenAndResolveTypes stack (map (field_at st) (array_at st inputItems))"
  using assms
  by (simp add: unflattenAndResolveTypes_store_def slice0_def sort_in_place_def Let_def
      unflattenAndResolveTypes_def map_sort_key)

theorem input_list_unchanged_witness:
  "\<forall>stack. array_at (snd (unflattenAndResolveTypes_store stack
       \<lparr>field_at = (\<lambda>r. if r = 0
                           then \<lparr>valueName = ''b.c'', valueType = ''Number'', valueDescription = [],
                                  valueRestrictions = None, valueOptional = None, valueOptionalBehavior = None\<rparr>
                           else \<lparr>valueName = ''a'', valueType = ''String'', valueDescription = [],
                                  valueRestrictions = None, valueOptional = None, valueOptionalBehavior = None\<rparr>),
        array_at = (\<lambda>a. if a = 0 then [0, 1] else []),
        next_array = 1\<rparr> 0)) 0 = [0, 1]
   \<and> array_at (snd (unflattenAndResolveTypes_store stack
       \<lparr>field_at = (\<lambda>r. if r = 0
                           then \<lparr>valueName = ''b.c'', valueType = ''Number'', valueDescription = [],
                                  valueRestrictions = None, valueOptional = None, valueOptionalBehavior = None\<rparr>
                           else \<lparr>valueName = ''a'', valueType = ''String'', valueDescription = [],
                                  valueRestrictions = None, valueOptional = None, valueOptionalBehavior = None\<rparr>),
        array_at = (\<lambda>a. if a = 0 then [0, 1] else []),
        next_array = 1\<rparr> 0)) 1 = [1, 0]"
  using input_list_unchanged
    [of 0 "\<lparr>field_at = (\<lambda>r. if r = 0
                           then \<lparr>valueName = ''b.c'', valueType = ''Number'', valueDescription = [],
                                  valueRestrictions = None, valueOptional = None, valueOptionalBehavior = None\<rparr>
                           else \<lparr>valueName = ''a'', valueType = ''String'', valueDescription = [],
                                  valueRestrictions = None, valueOptional = None, valueOptionalBehavior = None\<rparr>),
        array_at = (\<lambda>a. if a = 0 then [0, 1] else []),
        next_array = 1\<rparr>"]
  by (simp add: unflattenAndResolveTypes_store_def slice0_def sort_in_place_def Let_def depth_def dots_def)

section \<open>A leaf where an object is needed\<close>

text \<open>
  C5 (as found in the source). The claim asks that a list in which one path declares a
  position as a leaf that is no object, and another path needs an object there, builds no
  tree. The assignment of a leaf (\<^verbatim>\<open>currentNode.properties[lastPart] = resolveType(item)\<close>)
  replaces what the position held: with \<^verbatim>\<open>foo\<close> declared as \<^verbatim>\<open>String\<close> and then as
  \<^verbatim>\<open>Object\<close>, the position is an object when \<^verbatim>\<open>foo.bar\<close> reaches it, and the build
  returns a tree, in which the node created as a string has been replaced and descended
  into.
\<close>

theorem leaf_object_conflict_counterexample:
  "\<forall>stack. unflattenAndResolveTypes (Suc stack)
     [\<lparr>valueName = ''foo'', valueType = ''String'', valueDescription = [],
      valueRestrictions = None, valueOptional = None, valueOptionalBehavior = None\<rparr>,
      \<lparr>valueName = ''foo'', valueType = ''Object'', valueDescription = [],
      valueRestrictions = None, valueOptional = None, valueOptionalBehavior = None\<rparr>,
      \<lparr>valueName = ''foo.bar'', valueType = ''Number'', valueDescription = [],
      valueRestrictions = None, valueOptional = None, valueOptionalBehavior = None\<rparr>]
   = Inr (ObjectType
       [(''foo'',
         ObjectType [(''bar'', PrimitiveType T_number \<lparr>optional = None, jsdoc = Some []\<rparr>)]
           \<lparr>optional = None, jsdoc = Some []\<rparr>)]
       no_base)"
  by (simp add: unflattenAndResolveTypes_def depth_def dots_def parts_of_def lastPart_of_def
      resolveType_def getBaseType_String getBaseType_Number getBaseType_Object isObsRequestField_def
      enter_star_def leave_star_def new_child_def Object_prototype_keys_def set_property_def no_base_def)

text \<open>
  C5 (amended). When the list holds a descriptor \<open>f\<close> whose declared type is not
  \<^verbatim>\<open>Object\<close> and a descriptor \<open>g\<close> whose path goes on below the path of \<open>f\<close> with a
  segment other than \<^verbatim>\<open>*\<close> (so that the position of \<open>f\<close> would have to be an object),
  and no descriptor of the list declares the path of \<open>f\<close> as \<^verbatim>\<open>Object\<close>, and no leaf of
  the list is named \<^verbatim>\<open>__proto__\<close>, the build ends with an error and returns no tree. The
  order of the descriptors in the list does not matter.
\<close>

theorem leaf_object_conflict_fails:
  assumes "f \<in> set inputItems" and "g \<in> set inputItems"
    and "segments g = segments f @ q # rest" and "q \<noteq> ''*''"
    and "\<forall>h\<in>set inputItems. valueName h = valueName f \<longrightarrow> valueType h \<noteq> ''Object''"
    and "plain_leaves inputItems"
  shows "\<exists>e. unflattenAndResolveTypes stack inputItems = Inl e"
proof -
  define S where "S = sort_key depth inputItems"
  have setS: "set S = set inputItems" by (simp add: S_def)
  have sorted: "sorted (map depth S)" by (simp add: S_def)
  obtain xs ys where S: "S = xs @ f # ys"
    using assms(1) setS by (metis split_list)
  have after: "\<forall>h\<in>set ys. depth f \<le> depth h"
    using sorted unfolding S by (simp add: sorted_append)
  have before: "\<forall>h\<in>set xs. depth h \<le> depth f"
    using sorted unfolding S by (simp add: sorted_append)
  have lf: "length (segments f) = Suc (depth f)" and lg: "length (segments g) = Suc (depth g)"
    by (simp_all add: segments_parts length_parts_of)
  have dg: "depth f < depth g"
    using lf lg assms(3) by simp
  have gys: "g \<in> set ys"
  proof -
    have "g \<in> set S" using assms(2) setS by simp
    moreover have "g \<notin> set xs" using before dg by auto
    moreover have "g \<noteq> f" using dg by auto
    ultimately show ?thesis unfolding S by simp
  qed
  define rest' where "rest' = butlast (q # rest)"
  have pg: "parts_of g = segments f @ rest'"
    using assms(3) segments_parts [of g] unfolding rest'_def
    by (metis butlast_append butlast_snoc list.distinct(1))
  have r1: "rest' = [] \<longrightarrow> lastPart_of g = q"
    using assms(3) segments_parts [of g] unfolding rest'_def
    by (cases rest) (auto simp: append_eq_append_conv2 split: if_splits)
  have r2: "rest' \<noteq> [] \<longrightarrow> hd rest' = q"
    unfolding rest'_def by (cases rest) simp_all
  have c1: "\<forall>h\<in>set ys. length (segments f) \<le> Suc (depth h)"
    using after lf by simp
  have c2: "\<forall>h\<in>set ys. segments h = segments f \<longrightarrow> valueType h \<noteq> ''Object''"
    using assms(5) setS S segments_inj by (metis Un_iff list.set_intros(2) set_append)
  have pf: "lastPart_of f \<noteq> ''__proto__''"
    using assms(1,6) by (simp add: plain_leaves_def list_all_iff)
  have "\<exists>e. forEach_item stack (ObjectType [] no_base) (xs @ f # ys) = Inl e"
  proof (cases "forEach_item stack (ObjectType [] no_base) xs")
    case (Inl e)
    then show ?thesis by (simp add: forEach_item_append)
  next
    case (Inr t0)
    show ?thesis
    proof (cases "walk stack t0 (parts_of f) (lastPart_of f) f")
      case (Inl e)
      then show ?thesis using Inr by (simp add: forEach_item_append)
    next
      case t1: (Inr t1)
      obtain ty where r: "resolveType stack f = Inr ty" and at: "node_at t1 (segments f) = Some ty"
        using walk_creates_leaf [OF t1 pf] by (auto simp: segments_parts)
      have no: "\<not> is_object ty"
        using resolveType_object [OF r] assms(1,5) by auto
      obtain e where "forEach_item stack t1 ys = Inl e"
        using conflict_fold [OF gys pg assms(4) r1 r2 c1 c2 at no] by blast
      then show ?thesis using Inr t1 by (simp add: forEach_item_append)
    qed
  qed
  then show ?thesis
    unfolding unflattenAndResolveTypes_def Let_def S_def [symmetric] S .
qed

theorem leaf_object_conflict_fails_witness:
  "\<forall>stack. \<exists>e. unflattenAndResolveTypes stack
     [\<lparr>valueName = ''foo.bar'', valueType = ''Number'', valueDescription = [],
      valueRestrictions = None, valueOptional = None, valueOptionalBehavior = None\<rparr>,
      \<lparr>valueName = ''foo'', valueType = ''String'', valueDescription = [],
      valueRestrictions = None, valueOptional = None, valueOptionalBehavior = None\<rparr>] = Inl e"
  using leaf_object_conflict_fails
    [of "\<lparr>valueName = ''foo'', valueType = ''String'', valueDescription = [],
      valueRestrictions = None, valueOptional = None, valueOptionalBehavior = None\<rparr>"
        "[\<lparr>valueName = ''foo.bar'', valueType = ''Number'', valueDescription = [],
      valueRestrictions = None, valueOptional = None, valueOptionalBehavior = None\<rparr>,
          \<lparr>valueName = ''foo'', valueType = ''String'', valueDescription = [],
      valueRestrictions = None, valueOptional = None, valueOptionalBehavior = None\<rparr>]"
        "\<lparr>valueName = ''foo.bar'', valueType = ''Number'', valueDescription = [],
      valueRestrictions = None, valueOptional = None, valueOptionalBehavior = None\<rparr>"
        "''bar''" "[]"]
  by (simp add: segments_def plain_leaves_def lastPart_of_def)

lemma leaf_object_conflict_scenario:
  "unflattenAndResolveTypes (Suc stack)
     [\<lparr>valueName = ''foo.bar'', valueType = ''Number'', valueDescription = [],
      valueRestrictions = None, valueOptional = None, valueOptionalBehavior = None\<rparr>,
      \<lparr>valueName = ''foo'', valueType = ''String'', valueDescription = [],
      valueRestrictions = None, valueOptional = None, valueOptionalBehavior = None\<rparr>]
   = Inl (NotAnObject (Node (PrimitiveType T_string \<lparr>optional = None, jsdoc = Some []\<rparr>))
            \<lparr>valueName = ''foo.bar'', valueType = ''Number'', valueDescription = [],
      valueRestrictions = None, valueOptional = None, valueOptionalBehavior = None\<rparr>)"
  by (simp add: unflattenAndResolveTypes_def depth_def dots_def parts_of_def lastPart_of_def
      resolveType_def getBaseType_String getBaseType_Number isObsRequestField_def
      enter_star_def leave_star_def new_child_def Object_prototype_keys_def set_property_def)

section \<open>The order of siblings\<close>




end
